theory Spec2Isabelle
  imports Main "HOL-Library.List_Lexorder" "HOL-Library.Code_Target_Numeral"
begin

section \<open>JavaScript primitives used by the task routes\<close>

text \<open>
  Strings are lists of code units below 256. A number is a double whose value is an
  integer, an infinity or \<^verbatim>\<open>NaN\<close>: the routes only ever apply \<^verbatim>\<open>parseInt\<close>, \<^verbatim>\<open>Math.max\<close>,
  \<^verbatim>\<open>Math.min\<close>, subtraction and multiplication to digit strings and integers, and each
  result is rounded to the nearest double, ties to the even mantissa.
\<close>

type_synonym oid = nat

datatype number = NaN | Infinity | NegInfinity | Fin int

fun bitlen :: "nat \<Rightarrow> nat" where
  \<comment> \<open>the number of binary digits\<close>
  "bitlen n = (if n = 0 then 0 else Suc (bitlen (n div 2)))"

declare bitlen.simps [simp del]

definition round_nat :: "nat \<Rightarrow> nat" where
  \<comment> \<open>a natural number rounded to 53 significant binary digits, a tie to the even one\<close>
  "round_nat n =
     (if n < 2 ^ 53 then n
      else let e = bitlen n - 53; q = n div 2 ^ e; r = n mod 2 ^ e
           in if 2 ^ e < 2 * r \<or> (2 * r = 2 ^ e \<and> odd q) then (q + 1) * 2 ^ e
              else q * 2 ^ e)"

definition double_of :: "int \<Rightarrow> number" where
  \<comment> \<open>the double nearest to an integer; from \<open>2^1024\<close> on it is an infinity\<close>
  "double_of i =
     (let m = round_nat (nat \<bar>i\<bar>)
      in if 2 ^ 1024 \<le> m then (if i < 0 then NegInfinity else Infinity)
         else Fin (if i < 0 then - int m else int m))"

fun num_le :: "number \<Rightarrow> number \<Rightarrow> bool" where
  \<comment> \<open>\<^verbatim>\<open>a <= b\<close>: false when either side is \<^verbatim>\<open>NaN\<close>\<close>
  "num_le NaN b = False"
| "num_le a NaN = False"
| "num_le NegInfinity b = True"
| "num_le a Infinity = True"
| "num_le (Fin a) (Fin b) = (a \<le> b)"
| "num_le a b = False"

definition Math_max :: "number \<Rightarrow> number \<Rightarrow> number" where
  "Math_max a b = (if a = NaN \<or> b = NaN then NaN else if num_le a b then b else a)"

definition Math_min :: "number \<Rightarrow> number \<Rightarrow> number" where
  "Math_min a b = (if a = NaN \<or> b = NaN then NaN else if num_le a b then a else b)"

fun num_sub :: "number \<Rightarrow> number \<Rightarrow> number" where
  "num_sub (Fin a) (Fin b) = double_of (a - b)"
| "num_sub NaN b = NaN"
| "num_sub a NaN = NaN"
| "num_sub Infinity Infinity = NaN"
| "num_sub NegInfinity NegInfinity = NaN"
| "num_sub Infinity b = Infinity"
| "num_sub NegInfinity b = NegInfinity"
| "num_sub a Infinity = NegInfinity"
| "num_sub a NegInfinity = Infinity"

fun sign_of :: "number \<Rightarrow> int" where
  "sign_of (Fin a) = sgn a"
| "sign_of Infinity = 1"
| "sign_of NegInfinity = - 1"
| "sign_of NaN = 0"

fun num_mul :: "number \<Rightarrow> number \<Rightarrow> number" where
  "num_mul (Fin a) (Fin b) = double_of (a * b)"
| "num_mul NaN b = NaN"
| "num_mul a NaN = NaN"
| "num_mul a b =
     (if sign_of a * sign_of b = 0 then NaN
      else if 0 < sign_of a * sign_of b then Infinity else NegInfinity)"

definition is_space :: "char \<Rightarrow> bool" where
  \<comment> \<open>the code units below 256 that the regular expression class \<^verbatim>\<open>\s\<close> matches\<close>
  "is_space c = (of_char c \<in> {9, 10, 11, 12, 13, 32, 160 :: nat})"

definition is_digit :: "char \<Rightarrow> bool" where
  "is_digit c = (48 \<le> (of_char c :: nat) \<and> (of_char c :: nat) \<le> 57)"

definition trim :: "string \<Rightarrow> string" where
  \<comment> \<open>validator.js \<^verbatim>\<open>trim(str)\<close> without a character set: strips \<^verbatim>\<open>\s\<close> on both sides\<close>
  "trim s = rev (dropWhile is_space (rev (dropWhile is_space s)))"

definition digits_val :: "string \<Rightarrow> nat" where
  "digits_val ds = foldl (\<lambda>a c. 10 * a + (of_char c - 48)) 0 ds"

definition strip_sign :: "string \<Rightarrow> bool \<times> string" where
  "strip_sign s =
     (case s of
        [] \<Rightarrow> (False, [])
      | c # r \<Rightarrow> if c = CHR ''-'' then (True, r)
                 else if c = CHR ''+'' then (False, r) else (False, s))"

definition parseInt :: "string \<Rightarrow> number" where
  \<comment> \<open>\<^verbatim>\<open>parseInt(s, 10)\<close>: leading white space, an optional sign, the longest run of
      decimal digits, read as a double; \<^verbatim>\<open>NaN\<close> when there is no digit\<close>
  "parseInt s =
     (let (neg, r) = strip_sign (dropWhile is_space s);
          ds = takeWhile is_digit r
      in if ds = [] then NaN
         else double_of (if neg then - int (digits_val ds) else int (digits_val ds)))"

fun split_on :: "char \<Rightarrow> string \<Rightarrow> string list" where
  \<comment> \<open>\<^verbatim>\<open>s.split(sep)\<close> for a one-character separator: never the empty list\<close>
  "split_on sep [] = [[]]"
| "split_on sep (c # cs) =
     (if c = sep then [] # split_on sep cs
      else (case split_on sep cs of
              [] \<Rightarrow> [[c]]
            | w # ws \<Rightarrow> (c # w) # ws))"

fun join :: "string \<Rightarrow> string list \<Rightarrow> string" where
  \<comment> \<open>\<^verbatim>\<open>xs.join(sep)\<close>\<close>
  "join sep [] = []"
| "join sep [x] = x"
| "join sep (x # y # ys) = x @ sep @ join sep (y # ys)"

definition is_upper :: "char \<Rightarrow> bool" where
  \<comment> \<open>the upper-case letters below 256: A to Z, and U+00C0 to U+00DE without the
      multiplication sign\<close>
  "is_upper c =
     ((65 \<le> (of_char c :: nat) \<and> (of_char c :: nat) \<le> 90) \<or>
      (192 \<le> (of_char c :: nat) \<and> (of_char c :: nat) \<le> 222 \<and> (of_char c :: nat) \<noteq> 215))"

definition toLowerCase :: "string \<Rightarrow> string" where
  "toLowerCase s = map (\<lambda>c. if is_upper c then char_of (of_char c + 32 :: nat) else c) s"

section \<open>Request values and the express-validator chains\<close>

text \<open>
  A body field holds null, a boolean, an integer, a string or an array of such values;
  nested objects and fractional numbers are outside the model. An absent field
  (\<^verbatim>\<open>undefined\<close>) is \<open>None\<close> in the body map. A query parameter occurs at most once in the
  query string, as a plain \<^verbatim>\<open>name=value\<close>, so that its value is a string, and so is the
  path parameter.
\<close>

datatype json = JNull | JBool bool | JNum int | JStr string | JArr "json list"

type_synonym body = "string \<rightharpoonup> json"
type_synonym query = "string \<rightharpoonup> string"
type_synonym verr = "string \<times> string"

fun show_nat :: "nat \<Rightarrow> string" where
  "show_nat n =
     (if n < 10 then [char_of (48 + n)]
      else show_nat (n div 10) @ [char_of (48 + n mod 10)])"

declare show_nat.simps [simp del]

fun array_string :: "json \<Rightarrow> string" where
  \<comment> \<open>the string of a value as \<^verbatim>\<open>Array.prototype.toString\<close> writes an element: nothing
      for null, an array as its elements joined by commas\<close>
  "array_string JNull = []"
| "array_string (JBool b) = (if b then ''true'' else ''false'')"
| "array_string (JNum n) = (if n < 0 then CHR ''-'' # show_nat (nat (- n)) else show_nat (nat n))"
| "array_string (JStr s) = s"
| "array_string (JArr xs) = join '','' (map array_string xs)"

fun toString :: "json option \<Rightarrow> string" where
  \<comment> \<open>express-validator's \<^verbatim>\<open>toString\<close>: \<^verbatim>\<open>undefined\<close> and \<^verbatim>\<open>null\<close> give the empty string, a
      non-empty array the string of its first element\<close>
  "toString None = []"
| "toString (Some (JArr (x # xs))) = array_string x"
| "toString (Some v) = array_string v"

definition values_of :: "json option \<Rightarrow> json option list" where
  \<comment> \<open>a standard validator or sanitizer runs on each element of an array, and on any
      other value as a whole\<close>
  "values_of v = (case v of Some (JArr xs) \<Rightarrow> map Some xs | _ \<Rightarrow> [v])"

definition isString :: "json option \<Rightarrow> bool" where
  \<comment> \<open>\<^verbatim>\<open>typeof value === 'string'\<close>, on the value as a whole\<close>
  "isString v = (case v of Some (JStr _) \<Rightarrow> True | _ \<Rightarrow> False)"

definition isBoolean :: "string \<Rightarrow> bool" where
  \<comment> \<open>validator.js \<^verbatim>\<open>isBoolean\<close>\<close>
  "isBoolean s = (s \<in> {''true'', ''false'', ''1'', ''0''})"

definition int_syntax :: "string \<Rightarrow> bool" where
  \<comment> \<open>the regular expression \<^verbatim>\<open>^[-+]?[0-9]+$\<close> of validator.js \<^verbatim>\<open>isInt\<close>\<close>
  "int_syntax s = (let r = snd (strip_sign s) in r \<noteq> [] \<and> list_all is_digit r)"

definition isInt :: "int option \<Rightarrow> int option \<Rightarrow> string \<Rightarrow> bool" where
  \<comment> \<open>\<^verbatim>\<open>isInt(str, {min, max})\<close>: the syntax, \<^verbatim>\<open>str >= min\<close> and \<^verbatim>\<open>str <= max\<close>; on a string
      of that syntax the number \<^verbatim>\<open>str\<close> converts to is the one \<^verbatim>\<open>parseInt\<close> reads\<close>
  "isInt lo hi s =
     (int_syntax s \<and>
      (case lo of None \<Rightarrow> True | Some l \<Rightarrow> num_le (Fin l) (parseInt s)) \<and>
      (case hi of None \<Rightarrow> True | Some h \<Rightarrow> num_le (parseInt s) (Fin h)))"

definition is_hex :: "char \<Rightarrow> bool" where
  "is_hex c =
     (is_digit c \<or> (65 \<le> (of_char c :: nat) \<and> (of_char c :: nat) \<le> 70)
                \<or> (97 \<le> (of_char c :: nat) \<and> (of_char c :: nat) \<le> 102))"

definition isHexadecimal :: "string \<Rightarrow> bool" where
  \<comment> \<open>validator.js \<^verbatim>\<open>isHexadecimal\<close>: \<^verbatim>\<open>/^(0x|0h)?[0-9A-F]+$/i\<close>\<close>
  "isHexadecimal s =
     (let r = (if take 2 s \<in> {''0x'', ''0X'', ''0h'', ''0H''} then drop 2 s else s)
      in r \<noteq> [] \<and> list_all is_hex r)"

definition isMongoId :: "string \<Rightarrow> bool" where
  \<comment> \<open>validator.js \<^verbatim>\<open>isMongoId\<close>: hexadecimal by the test above, and 24 characters\<close>
  "isMongoId s = (isHexadecimal s \<and> length s = 24)"

definition is_object_id :: "string \<Rightarrow> bool" where
  \<comment> \<open>24 hexadecimal digits: the strings that denote an ObjectId\<close>
  "is_object_id s = (length s = 24 \<and> list_all is_hex s)"

definition hex_val :: "char \<Rightarrow> nat" where
  "hex_val c =
     (if is_digit c then of_char c - 48
      else if (of_char c :: nat) \<le> 70 then of_char c - 55 else of_char c - 87)"

definition cast_oid :: "string \<Rightarrow> oid option" where
  \<comment> \<open>Mongoose's cast of a 24-character string to an ObjectId (the letters' case is
      ignored); \<open>None\<close> is a CastError. The routes pass no string of another length.\<close>
  "cast_oid s = (if is_object_id s then Some (foldl (\<lambda>a c. 16 * a + hex_val c) 0 s) else None)"

definition optional :: "'a option \<Rightarrow> ('a \<Rightarrow> verr list) \<Rightarrow> verr list" where
  \<comment> \<open>\<^verbatim>\<open>.optional()\<close>: the rest of the chain is skipped when the field is \<^verbatim>\<open>undefined\<close>\<close>
  "optional v chain = (case v of None \<Rightarrow> [] | Some x \<Rightarrow> chain x)"

definition check :: "bool \<Rightarrow> string \<Rightarrow> string \<Rightarrow> verr list" where
  \<comment> \<open>one validator of a chain: an error entry \<^verbatim>\<open>{param, msg}\<close> when it fails\<close>
  "check passed field msg = (if passed then [] else [(field, msg)])"

definition check_each :: "(string \<Rightarrow> bool) \<Rightarrow> json option \<Rightarrow> string \<Rightarrow> string \<Rightarrow> verr list" where
  \<comment> \<open>a standard validator: it tests the string of each value, one error entry for each
      that fails\<close>
  "check_each valid v field msg =
     concat (map (\<lambda>x. check (valid (toString x)) field msg) (values_of v))"

definition trim_value :: "json option \<Rightarrow> json" where
  \<comment> \<open>the \<^verbatim>\<open>.trim()\<close> sanitizer: the trimmed string of the value, of each element for an
      array\<close>
  "trim_value v =
     (case v of
        Some (JArr xs) \<Rightarrow> JArr (map (\<lambda>x. JStr (trim (toString (Some x)))) xs)
      | _ \<Rightarrow> JStr (trim (toString v)))"

definition title_chain :: "string \<Rightarrow> json option \<Rightarrow> verr list" where
  \<comment> \<open>\<^verbatim>\<open>.isString().trim().notEmpty().withMessage(msg)\<close>: the message belongs to
      \<^verbatim>\<open>notEmpty\<close>, which sees the trimmed value\<close>
  "title_chain msg v =
     check (isString v) ''title'' ''Invalid value'' @
     check_each (\<lambda>s. s \<noteq> []) (Some (trim_value v)) ''title'' msg"

definition sanitize_title :: "body \<Rightarrow> body" where
  \<comment> \<open>the sanitizer writes the trimmed value back into \<^verbatim>\<open>req.body.title\<close>\<close>
  "sanitize_title b = b(''title'' \<mapsto> trim_value (b ''title''))"

definition sanitize_title_optional :: "body \<Rightarrow> body" where
  \<comment> \<open>under \<^verbatim>\<open>.optional()\<close> an absent title is left absent\<close>
  "sanitize_title_optional b = (case b ''title'' of None \<Rightarrow> b | Some _ \<Rightarrow> sanitize_title b)"

datatype error = ValidationError "verr list" | Unauthenticated | NotFound | InternalFailure

definition handleValidation :: "verr list \<Rightarrow> error option" where
  \<comment> \<open>\<^verbatim>\<open>handleValidation\<close>: a 400 response when the error list is not empty, otherwise null\<close>
  "handleValidation errs = (if errs \<noteq> [] then Some (ValidationError errs) else None)"

section \<open>The task collection\<close>

text \<open>
  Modelled from the spec: \<^verbatim>\<open>models/Task\<close> (the Mongoose schema) is not among the
  sources. A task has a title, a description, a completion flag that defaults to false,
  an owning user and a creation time assigned when it is created; the schema casts
  title and description to strings, the flag to a boolean and the owner to an ObjectId.
  The collection is the list of its documents in insertion order, with the next
  ObjectId the driver will generate (idealised as a counter). A query that Mongoose or
  the store refuses (the promise rejects) returns \<open>None\<close>.
\<close>

record task =
  tid :: oid
  title :: string
  description :: string
  completed :: bool
  owner :: oid
  createdAt :: nat

record store =
  docs :: "task list"
  next_id :: oid

record filter =
  f_id :: "string option"
  f_owner :: "oid option"
  f_completed :: "bool option"

definition filter_castable :: "filter \<Rightarrow> bool" where
  \<comment> \<open>the conditions are cast before the query is sent: an \<^verbatim>\<open>_id\<close> must denote an ObjectId\<close>
  "filter_castable flt = (case f_id flt of None \<Rightarrow> True | Some s \<Rightarrow> cast_oid s \<noteq> None)"

definition matches :: "filter \<Rightarrow> task \<Rightarrow> bool" where
  "matches flt t =
     ((case f_id flt of None \<Rightarrow> True | Some s \<Rightarrow> cast_oid s = Some (tid t)) \<and>
      (case f_owner flt of None \<Rightarrow> True | Some u \<Rightarrow> owner t = u) \<and>
      (case f_completed flt of None \<Rightarrow> True | Some c \<Rightarrow> completed t = c))"

definition field_key :: "string \<Rightarrow> task \<Rightarrow> nat list" where
  \<comment> \<open>the value a sort compares, as a list of numbers compared lexicographically:
      strings by their code units, false before true; a path that is not in the schema
      is null in every document\<close>
  "field_key f t =
     (if f = ''title'' then map of_char (title t)
      else if f = ''description'' then map of_char (description t)
      else if f = ''completed'' then [if completed t then 1 else 0]
      else if f = ''owner'' then [owner t]
      else if f = ''createdAt'' then [createdAt t]
      else if f = ''_id'' then [tid t]
      else [])"

definition valid_path :: "string \<Rightarrow> bool" where
  \<comment> \<open>a field path the store can sort on: no part between dots is empty, starts with a
      dollar sign or holds a null character\<close>
  "valid_path f =
     list_all (\<lambda>p. p \<noteq> [] \<and> take 1 p \<noteq> ''$'' \<and> (0 :: nat) \<notin> of_char ` set p)
       (split_on CHR ''.'' f)"

definition order_by :: "(string \<times> int) option \<Rightarrow> task list \<Rightarrow> task list option" where
  \<comment> \<open>\<^verbatim>\<open>.sort(sort)\<close> for a sort object with no key or one key: documents that compare
      equal keep their insertion order; \<^verbatim>\<open>$natural\<close> is the insertion order itself\<close>
  "order_by srt ms =
     (case srt of
        None \<Rightarrow> Some ms
      | Some (f, d) \<Rightarrow>
          if f = ''$natural'' then Some (if d = 1 then ms else rev ms)
          else if \<not> valid_path f then None
          else Some (if d = 1 then sort_key (field_key f) ms
                     else rev (sort_key (field_key f) (rev ms))))"

definition page_of :: "number \<Rightarrow> number \<Rightarrow> task list \<Rightarrow> task list option" where
  \<comment> \<open>\<^verbatim>\<open>.skip(skip).limit(limit)\<close>. The list route passes a limit from 1 to 100 and a skip
      that is not negative; the server reads the skip as a 64-bit integer and refuses
      one that is not\<close>
  "page_of skip lim ms =
     (case lim of
        Fin l \<Rightarrow>
          if l < 1 then None
          else (case skip of
                  Fin k \<Rightarrow> if k < 0 \<or> 2 ^ 63 \<le> k then None
                           else Some (take (nat l) (drop (nat k) ms))
                | _ \<Rightarrow> None)
      | _ \<Rightarrow> None)"

definition Task_find :: "filter \<Rightarrow> (string \<times> int) option \<Rightarrow> number \<Rightarrow> number \<Rightarrow> store \<Rightarrow> task list option" where
  \<comment> \<open>\<^verbatim>\<open>Task.find(filter).sort(sort).skip(skip).limit(limit)\<close>\<close>
  "Task_find flt srt skip lim st =
     (if filter_castable flt
      then Option.bind (order_by srt (filter (matches flt) (docs st))) (page_of skip lim)
      else None)"

definition Task_countDocuments :: "filter \<Rightarrow> store \<Rightarrow> nat option" where
  "Task_countDocuments flt st =
     (if filter_castable flt then Some (length (filter (matches flt) (docs st))) else None)"

definition Task_findOne :: "filter \<Rightarrow> store \<Rightarrow> task option option" where
  "Task_findOne flt st = (if filter_castable flt then Some (find (matches flt) (docs st)) else None)"

definition castString :: "json \<Rightarrow> string option" where
  \<comment> \<open>null is not a string of the model, and an array is not cast to a string\<close>
  "castString v = (case v of JNull \<Rightarrow> None | JArr _ \<Rightarrow> None | _ \<Rightarrow> Some (array_string v))"

definition castBoolean :: "json \<Rightarrow> bool option" where
  "castBoolean v =
     (case v of
        JBool b \<Rightarrow> Some b
      | JNum n \<Rightarrow> if n = 1 then Some True else if n = 0 then Some False else None
      | JStr s \<Rightarrow> if s \<in> {''true'', ''1'', ''yes''} then Some True
                  else if s \<in> {''false'', ''0'', ''no''} then Some False else None
      | _ \<Rightarrow> None)"

definition castObjectId :: "json \<Rightarrow> oid option" where
  "castObjectId v = (case v of JStr s \<Rightarrow> cast_oid s | _ \<Rightarrow> None)"

definition Task_create :: "json option \<Rightarrow> json option \<Rightarrow> oid \<Rightarrow> nat \<Rightarrow> store \<Rightarrow> (task \<times> store) option" where
  \<comment> \<open>\<^verbatim>\<open>Task.create({title, description, owner})\<close> at server time \<open>now\<close>\<close>
  "Task_create ttl desc own now st =
     (case (Option.bind ttl castString, Option.bind desc castString) of
        (Some a, Some d) \<Rightarrow>
          let t = \<lparr>tid = next_id st, title = a, description = d, completed = False,
                   owner = own, createdAt = now\<rparr>
          in Some (t, st\<lparr>docs := docs st @ [t], next_id := Suc (next_id st)\<rparr>)
      | _ \<Rightarrow> None)"

record casted =
  c_title :: "string option"
  c_description :: "string option"
  c_completed :: "bool option"
  c_owner :: "oid option"

definition cast_path :: "(json \<Rightarrow> 'a option) \<Rightarrow> json option \<Rightarrow> 'a option option" where
  \<comment> \<open>an absent path is not cast; a present one must cast\<close>
  "cast_path f v = (case v of None \<Rightarrow> Some None | Some x \<Rightarrow> map_option Some (f x))"

definition cast_update :: "body \<Rightarrow> casted option" where
  \<comment> \<open>the paths of a \<^verbatim>\<open>$set\<close> that the schema knows and lets change; any other key is
      dropped\<close>
  "cast_update u =
     (case (cast_path castString (u ''title''), cast_path castString (u ''description''),
            cast_path castBoolean (u ''completed''), cast_path castObjectId (u ''owner'')) of
        (Some a, Some d, Some c, Some w) \<Rightarrow>
          Some \<lparr>c_title = a, c_description = d, c_completed = c, c_owner = w\<rparr>
      | _ \<Rightarrow> None)"

definition apply_set :: "casted \<Rightarrow> task \<Rightarrow> task" where
  "apply_set c t =
     t\<lparr>title := (case c_title c of None \<Rightarrow> title t | Some a \<Rightarrow> a),
       description := (case c_description c of None \<Rightarrow> description t | Some d \<Rightarrow> d),
       completed := (case c_completed c of None \<Rightarrow> completed t | Some b \<Rightarrow> b),
       owner := (case c_owner c of None \<Rightarrow> owner t | Some w \<Rightarrow> w)\<rparr>"

fun update_first :: "('a \<Rightarrow> bool) \<Rightarrow> ('a \<Rightarrow> 'a) \<Rightarrow> 'a list \<Rightarrow> 'a list" where
  "update_first P g [] = []"
| "update_first P g (x # xs) = (if P x then g x # xs else x # update_first P g xs)"

definition Task_findOneAndUpdate :: "filter \<Rightarrow> body \<Rightarrow> store \<Rightarrow> (task option \<times> store) option" where
  \<comment> \<open>\<^verbatim>\<open>Task.findOneAndUpdate(filter, {$set: u}, {new: true})\<close>: the conditions and the
      update are cast before the query is sent; the first matching document is changed
      and returned as changed\<close>
  "Task_findOneAndUpdate flt u st =
     (if \<not> filter_castable flt then None
      else (case cast_update u of
              None \<Rightarrow> None
            | Some c \<Rightarrow>
                (case find (matches flt) (docs st) of
                   None \<Rightarrow> Some (None, st)
                 | Some t \<Rightarrow>
                     Some (Some (apply_set c t),
                           st\<lparr>docs := update_first (matches flt) (apply_set c) (docs st)\<rparr>))))"

definition Task_findOneAndDelete :: "filter \<Rightarrow> store \<Rightarrow> (task option \<times> store) option" where
  "Task_findOneAndDelete flt st =
     (if \<not> filter_castable flt then None
      else (case find (matches flt) (docs st) of
              None \<Rightarrow> Some (None, st)
            | Some t \<Rightarrow> Some (Some t, st\<lparr>docs := remove1 t (docs st)\<rparr>)))"

section \<open>The task routes\<close>

record meta =
  m_total :: nat
  m_page :: number
  m_limit :: number
  m_pages :: number

datatype reply =
    Tasks_meta "task list" meta   \<comment> \<open>200 \<^verbatim>\<open>{tasks, meta}\<close>\<close>
  | Task_created task             \<comment> \<open>201 \<^verbatim>\<open>{task}\<close>\<close>
  | Task_body task                \<comment> \<open>200 \<^verbatim>\<open>{task}\<close>\<close>
  | Task_deleted                  \<comment> \<open>200 \<^verbatim>\<open>{message: 'Task deleted'}\<close>\<close>

fun status :: "error + reply \<Rightarrow> nat" where
  "status (Inl (ValidationError _)) = 400"
| "status (Inl Unauthenticated) = 401"
| "status (Inl NotFound) = 404"
| "status (Inl InternalFailure) = 500"
| "status (Inr (Task_created _)) = 201"
| "status (Inr _) = 200"

definition or_default :: "string option \<Rightarrow> string \<Rightarrow> string" where
  \<comment> \<open>\<^verbatim>\<open>v || d\<close> on a query parameter: absent and empty are falsy\<close>
  "or_default v d = (case v of None \<Rightarrow> d | Some s \<Rightarrow> if s = [] then d else s)"

definition or_empty :: "json option \<Rightarrow> json option" where
  \<comment> \<open>\<^verbatim>\<open>description || ''\<close>\<close>
  "or_empty v =
     (if v \<in> {None, Some JNull, Some (JBool False), Some (JNum 0), Some (JStr [])}
      then Some (JStr []) else v)"

definition sort_of_query :: "string option \<Rightarrow> (string \<times> int) option" where
  \<comment> \<open>the sort object of the list route: \<^verbatim>\<open>{createdAt: -1}\<close> unless \<^verbatim>\<open>req.query.sort\<close>
      is a non-empty string, then \<^verbatim>\<open>[field, dir] = sort.split(':')\<close>, \<^verbatim>\<open>sort = {}\<close> and
      \<^verbatim>\<open>sort[field] = dir === 'asc' ? 1 : -1\<close>. Assigning a number to \<^verbatim>\<open>__proto__\<close> adds no
      key: the object stays empty (\<open>None\<close>).\<close>
  "sort_of_query s =
     (case s of
        None \<Rightarrow> Some (''createdAt'', - 1)
      | Some v \<Rightarrow>
          if v = [] then Some (''createdAt'', - 1)
          else (case split_on CHR '':'' v of
                  [] \<Rightarrow> Some (''undefined'', - 1)
                | field # rest \<Rightarrow>
                    if field = ''__proto__'' then None
                    else Some (field,
                               if (case rest of [] \<Rightarrow> None | d # _ \<Rightarrow> Some d) = Some ''asc''
                               then 1 else - 1)))"

definition get_root_validation :: "query \<Rightarrow> verr list" where
  "get_root_validation q =
     optional (q ''completed'')
       (\<lambda>v. check (v \<in> {''true'', ''false''}) ''completed'' ''completed must be true or false'') @
     optional (q ''page'')
       (\<lambda>v. check (isInt (Some 1) None v) ''page'' ''page must be >= 1'') @
     optional (q ''limit'')
       (\<lambda>v. check (isInt (Some 1) (Some 100) v) ''limit'' ''limit must be between 1 and 100'')"

definition list_filter :: "oid \<Rightarrow> query \<Rightarrow> filter" where
  "list_filter uid q =
     \<lparr>f_id = None, f_owner = Some uid,
      f_completed = map_option (\<lambda>v. toLowerCase v = ''true'') (q ''completed'')\<rparr>"

definition list_page :: "query \<Rightarrow> number" where
  "list_page q = Math_max (Fin 1) (parseInt (or_default (q ''page'') ''1''))"

definition list_limit :: "query \<Rightarrow> number" where
  "list_limit q =
     Math_max (Fin 1) (Math_min (Fin 100) (parseInt (or_default (q ''limit'') ''10'')))"

definition Math_ceil_div :: "nat \<Rightarrow> number \<Rightarrow> number" where
  \<comment> \<open>\<^verbatim>\<open>Math.ceil(total / limit)\<close> for a count of documents: the quotient is taken exactly, as
      it is for a collection of fewer than \<open>2^46\<close> documents\<close>
  "Math_ceil_div n lim =
     (case lim of
        Fin l \<Rightarrow> if 0 < l then Fin ((int n + l - 1) div l)
                 else if l < 0 then Fin (- (int n div (- l)))
                 else if n = 0 then NaN else Infinity
      | NaN \<Rightarrow> NaN
      | _ \<Rightarrow> Fin 0)"

definition router_get_root :: "oid \<Rightarrow> query \<Rightarrow> store \<Rightarrow> error + reply" where
  \<comment> \<open>\<^verbatim>\<open>router.get('/')\<close>: a query that rejects is caught and answered 500\<close>
  "router_get_root uid q st =
     (case handleValidation (get_root_validation q) of
        Some e \<Rightarrow> Inl e
      | None \<Rightarrow>
          let pg = list_page q;
              lim = list_limit q;
              skip = num_mul (num_sub pg (Fin 1)) lim;
              srt = sort_of_query (q ''sort'')
          in (case (Task_find (list_filter uid q) srt skip lim st,
                    Task_countDocuments (list_filter uid q) st) of
                (Some found, Some n) \<Rightarrow>
                  Inr (Tasks_meta found
                        \<lparr>m_total = n, m_page = pg, m_limit = lim,
                         m_pages = Math_ceil_div n lim\<rparr>)
              | _ \<Rightarrow> Inl InternalFailure))"

definition post_root_validation :: "body \<Rightarrow> verr list" where
  "post_root_validation b =
     title_chain ''title is required'' (b ''title'') @
     optional (b ''description'')
       (\<lambda>v. check (isString (Some v)) ''description'' ''description must be text'')"

definition router_post_root :: "oid \<Rightarrow> body \<Rightarrow> nat \<Rightarrow> store \<Rightarrow> (error + reply) \<times> store" where
  \<comment> \<open>\<^verbatim>\<open>router.post('/')\<close>\<close>
  "router_post_root uid b0 now st =
     (case handleValidation (post_root_validation b0) of
        Some e \<Rightarrow> (Inl e, st)
      | None \<Rightarrow>
          let b = sanitize_title b0 in
          (case Task_create (b ''title'') (or_empty (b ''description'')) uid now st of
             None \<Rightarrow> (Inl InternalFailure, st)
           | Some (t, st') \<Rightarrow> (Inr (Task_created t), st')))"

definition id_filter :: "oid \<Rightarrow> string \<Rightarrow> filter" where
  \<comment> \<open>\<^verbatim>\<open>{ _id: req.params.id, owner: req.user._id }\<close>\<close>
  "id_filter uid i = \<lparr>f_id = Some i, f_owner = Some uid, f_completed = None\<rparr>"

definition id_validation :: "string \<Rightarrow> verr list" where
  "id_validation i = check (isMongoId i) ''id'' ''invalid task id''"

definition router_get_id :: "oid \<Rightarrow> string \<Rightarrow> store \<Rightarrow> error + reply" where
  \<comment> \<open>\<^verbatim>\<open>router.get('/:id')\<close>\<close>
  "router_get_id uid i st =
     (case handleValidation (id_validation i) of
        Some e \<Rightarrow> Inl e
      | None \<Rightarrow>
          (case Task_findOne (id_filter uid i) st of
             None \<Rightarrow> Inl InternalFailure
           | Some None \<Rightarrow> Inl NotFound
           | Some (Some t) \<Rightarrow> Inr (Task_body t)))"

definition put_id_validation :: "string \<Rightarrow> body \<Rightarrow> verr list" where
  "put_id_validation i b =
     id_validation i @
     optional (b ''title'')
       (\<lambda>v. title_chain ''title must be a non-empty string'' (Some v)) @
     optional (b ''description'')
       (\<lambda>v. check (isString (Some v)) ''description'' ''description must be text'') @
     optional (b ''completed'')
       (\<lambda>v. check_each isBoolean (Some v) ''completed'' ''completed must be true or false'')"

definition put_updates :: "body \<Rightarrow> body" where
  \<comment> \<open>the \<^verbatim>\<open>updates\<close> object: the three fields, each copied when it is not \<^verbatim>\<open>undefined\<close>\<close>
  "put_updates b = b |` {''title'', ''description'', ''completed''}"

definition router_put_id :: "oid \<Rightarrow> string \<Rightarrow> body \<Rightarrow> store \<Rightarrow> (error + reply) \<times> store" where
  \<comment> \<open>\<^verbatim>\<open>router.put('/:id')\<close>\<close>
  "router_put_id uid i b0 st =
     (case handleValidation (put_id_validation i b0) of
        Some e \<Rightarrow> (Inl e, st)
      | None \<Rightarrow>
          (case Task_findOneAndUpdate (id_filter uid i)
                  (put_updates (sanitize_title_optional b0)) st of
             None \<Rightarrow> (Inl InternalFailure, st)
           | Some (None, st') \<Rightarrow> (Inl NotFound, st')
           | Some (Some t, st') \<Rightarrow> (Inr (Task_body t), st')))"

definition router_delete_id :: "oid \<Rightarrow> string \<Rightarrow> store \<Rightarrow> (error + reply) \<times> store" where
  \<comment> \<open>\<^verbatim>\<open>router.delete('/:id')\<close>\<close>
  "router_delete_id uid i st =
     (case handleValidation (id_validation i) of
        Some e \<Rightarrow> (Inl e, st)
      | None \<Rightarrow>
          (case Task_findOneAndDelete (id_filter uid i) st of
             None \<Rightarrow> (Inl InternalFailure, st)
           | Some (None, st') \<Rightarrow> (Inl NotFound, st')
           | Some (Some t, st') \<Rightarrow> (Inr Task_deleted, st')))"

text \<open>
  Modelled from the spec: \<^verbatim>\<open>middleware/auth\<close> is not among the sources. Token
  verification fails with Unauthenticated when the token is missing, malformed or
  expired, and otherwise resolves to the identity; \<open>verify\<close> stands for the signature
  and expiry check. The routes read that identity as \<^verbatim>\<open>req.user._id\<close>.
\<close>

definition auth :: "(string \<Rightarrow> oid option) \<Rightarrow> string option \<Rightarrow> error + oid" where
  "auth verify tok =
     (case tok of
        None \<Rightarrow> Inl Unauthenticated
      | Some t \<Rightarrow> (case verify t of None \<Rightarrow> Inl Unauthenticated | Some u \<Rightarrow> Inr u))"

datatype route = GET_tasks | POST_tasks | GET_task string | PUT_task string | DELETE_task string

record request =
  route :: route
  bearer :: "string option"
  req_query :: query
  req_body :: body

definition tasks_router :: "(string \<Rightarrow> oid option) \<Rightarrow> nat \<Rightarrow> request \<Rightarrow> store \<Rightarrow> (error + reply) \<times> store" where
  \<comment> \<open>\<^verbatim>\<open>router.use('/tasks', auth, taskRoutes)\<close> at server time \<open>now\<close>\<close>
  "tasks_router verify now req st =
     (case auth verify (bearer req) of
        Inl e \<Rightarrow> (Inl e, st)
      | Inr uid \<Rightarrow>
          (case route req of
             GET_tasks \<Rightarrow> (router_get_root uid (req_query req) st, st)
           | POST_tasks \<Rightarrow> router_post_root uid (req_body req) now st
           | GET_task i \<Rightarrow> (router_get_id uid i st, st)
           | PUT_task i \<Rightarrow> router_put_id uid i (req_body req) st
           | DELETE_task i \<Rightarrow> router_delete_id uid i st))"

section \<open>The client application\<close>

text \<open>
  The session state of \<^verbatim>\<open>useAuth\<close>/\<^verbatim>\<open>App\<close> and, of the \<^verbatim>\<open>Tasks\<close> component, the task list,
  the loading flag and the error banner. Each function is the continuation that runs
  when the response of an API call has arrived. A response body is the parsed JSON
  object, read through the keys the client looks at; a key that is absent or falsy is
  \<open>None\<close>.
\<close>

record 'u res_json =
  j_me :: "'u option"
  j_tasks :: "task list option"
  j_message :: "string option"
  j_errors :: "string list option"

record 'u api_result =
  ok :: bool
  http_status :: nat
  res_body :: "'u res_json option"

definition apiFetch_result :: "nat \<Rightarrow> 'u res_json option \<Rightarrow> 'u api_result" where
  \<comment> \<open>what \<^verbatim>\<open>apiFetch\<close> returns for a response: \<^verbatim>\<open>res.ok\<close> is true for the codes 200 to 299\<close>
  "apiFetch_result code b = \<lparr>ok = (200 \<le> code \<and> code \<le> 299), http_status = code, res_body = b\<rparr>"

record 'u client =
  token :: "string option"
  user :: "'u option"
  localStorage_token :: "string option"
  loadingUser :: bool
  tasks :: "task list"
  loading :: bool
  error :: "string option"

definition logout :: "'u client \<Rightarrow> 'u client" where
  "logout c = c\<lparr>token := None, user := None\<rparr>"

definition token_effect :: "'u client \<Rightarrow> 'u client" where
  \<comment> \<open>the effect of \<^verbatim>\<open>useAuth\<close> that follows a change of the token: store it, or remove
      the stored one\<close>
  "token_effect c = c\<lparr>localStorage_token := token c\<rparr>"

definition me_check_done :: "'u api_result \<Rightarrow> 'u client \<Rightarrow> 'u client" where
  \<comment> \<open>the \<^verbatim>\<open>then\<close> callback of the \<^verbatim>\<open>/me\<close> call that \<^verbatim>\<open>App\<close> makes when the token changes\<close>
  "me_check_done r c =
     (let c1 = c\<lparr>loadingUser := False\<rparr> in
      case (if ok r then Option.bind (res_body r) j_me else None) of
        Some me \<Rightarrow> c1\<lparr>user := Some me\<rparr>
      | None \<Rightarrow> logout c1)"

definition me_check_failed :: "'u client \<Rightarrow> 'u client" where
  \<comment> \<open>its \<^verbatim>\<open>catch\<close> callback (the request itself failed)\<close>
  "me_check_failed c = logout (c\<lparr>loadingUser := False\<rparr>)"

datatype element = Navigate string | Tasks

definition tasks_route :: "'u client \<Rightarrow> element" where
  \<comment> \<open>the element of the route \<^verbatim>\<open>/tasks\<close>\<close>
  "tasks_route c = (if token c \<noteq> None then Tasks else Navigate ''/login'')"

definition fetchTasks_done :: "'u api_result \<Rightarrow> 'u client \<Rightarrow> 'u client" where
  \<comment> \<open>\<^verbatim>\<open>fetchTasks\<close> after the response; reading \<^verbatim>\<open>tasks\<close> of a null body throws, after
      the loading flag is cleared\<close>
  "fetchTasks_done r c =
     (let c1 = c\<lparr>loading := False\<rparr> in
      if ok r then
        (case res_body r of
           None \<Rightarrow> c1
         | Some j \<Rightarrow> c1\<lparr>tasks := (case j_tasks j of None \<Rightarrow> [] | Some ts \<Rightarrow> ts)\<rparr>)
      else c1\<lparr>error := Some ''Failed to load tasks''\<rparr>)"

definition or_else :: "string option \<Rightarrow> string option \<Rightarrow> string option" where
  \<comment> \<open>\<^verbatim>\<open>a || b\<close> on strings: an absent and an empty string are falsy\<close>
  "or_else a b = (case a of None \<Rightarrow> b | Some x \<Rightarrow> if x = [] then b else Some x)"

definition create_error_text :: "'u res_json option \<Rightarrow> string" where
  "create_error_text b =
     (case or_else (Option.bind b (\<lambda>j. or_else (j_message j) (map_option (join '', '') (j_errors j))))
                   (Some ''Create failed'') of
        None \<Rightarrow> ''Create failed''
      | Some x \<Rightarrow> x)"

text \<open>
  The four mutating calls: the new state, and whether \<^verbatim>\<open>fetchTasks\<close> is called next.
\<close>

definition createTask_done :: "'u api_result \<Rightarrow> 'u client \<Rightarrow> 'u client \<times> bool" where
  "createTask_done r c =
     (let c1 = c\<lparr>error := None\<rparr> in
      if ok r then (c1, True) else (c1\<lparr>error := Some (create_error_text (res_body r))\<rparr>, False))"

definition toggleComplete_done :: "'u api_result \<Rightarrow> 'u client \<Rightarrow> 'u client \<times> bool" where
  "toggleComplete_done r c = (if ok r then (c, True) else (c\<lparr>error := Some ''Update failed''\<rparr>, False))"

definition removeTask_done :: "'u api_result \<Rightarrow> 'u client \<Rightarrow> 'u client \<times> bool" where
  "removeTask_done r c = (if ok r then (c, True) else (c\<lparr>error := Some ''Delete failed''\<rparr>, False))"

definition saveEdit_done :: "'u api_result \<Rightarrow> 'u client \<Rightarrow> 'u client \<times> bool" where
  "saveEdit_done r c = (if ok r then (c, True) else (c\<lparr>error := Some ''Update failed''\<rparr>, False))"

section \<open>A well-formed collection\<close>

definition store_ok :: "store \<Rightarrow> bool" where
  \<comment> \<open>ObjectIds are unique, and the generator has not yet produced the next one\<close>
  "store_ok st = (distinct (map tid (docs st)) \<and> list_all (\<lambda>t. tid t < next_id st) (docs st))"

definition owner_of :: "store \<Rightarrow> oid \<Rightarrow> oid option" where
  \<comment> \<open>the owner of the task with a given ObjectId, if the collection has one\<close>
  "owner_of st i = map_option owner (find (\<lambda>t. tid t = i) (docs st))"

definition lookup :: "store \<Rightarrow> oid \<Rightarrow> task option" where
  "lookup st i = find (\<lambda>t. tid t = i) (docs st)"

fun reply_tasks :: "error + reply \<Rightarrow> task list" where
  \<comment> \<open>the tasks a response shows to the caller\<close>
  "reply_tasks (Inr (Tasks_meta ts m)) = ts"
| "reply_tasks (Inr (Task_created t)) = [t]"
| "reply_tasks (Inr (Task_body t)) = [t]"
| "reply_tasks _ = []"

definition int_value :: "string \<Rightarrow> int" where
  \<comment> \<open>the integer that an optional sign followed by decimal digits denotes\<close>
  "int_value s =
     (if fst (strip_sign s) then - int (digits_val (snd (strip_sign s)))
      else int (digits_val (snd (strip_sign s))))"




definition empty_store :: store where
  "empty_store = \<lparr>docs = [], next_id = 0\<rparr>"

section \<open>Sample data\<close>

definition milk :: task where
  "milk = \<lparr>tid = 171, title = ''buy milk'', description = [], completed = False,
           owner = 7, createdAt = 100\<rparr>"

definition milk_id :: string where
  \<comment> \<open>the hexadecimal form of ObjectId 171\<close>
  "milk_id = ''0000000000000000000000ab''"

definition milk_store :: store where
  "milk_store = \<lparr>docs = [milk], next_id = 172\<rparr>"

definition eggs :: task where
  "eggs = \<lparr>tid = 172, title = ''eggs'', description = ''a dozen'', completed = True,
           owner = 7, createdAt = 50\<rparr>"

definition rent :: task where
  "rent = \<lparr>tid = 173, title = ''pay rent'', description = [], completed = False,
           owner = 8, createdAt = 70\<rparr>"

definition shared_store :: store where
  \<comment> \<open>two tasks of user 7 and one of user 8\<close>
  "shared_store = \<lparr>docs = [milk, rent, eggs], next_id = 174\<rparr>"

definition sample_verify :: "string \<Rightarrow> oid option" where
  \<comment> \<open>a verifier that knows one token, of user 7\<close>
  "sample_verify tok = (if tok = ''token-7'' then Some 7 else None)"

section \<open>Auxiliary facts\<close>

subsection \<open>Doubles\<close>

lemma bitlen_one: "bitlen (Suc 0) = Suc 0"
  by (simp add: bitlen.simps[of "Suc 0"] bitlen.simps[of 0])

lemma bitlen_bounds: "0 < n \<Longrightarrow> 2 ^ (bitlen n - 1) \<le> n \<and> n < 2 ^ bitlen n"
proof (induction n rule: bitlen.induct)
  case (1 n)
  show ?case
  proof (cases "n div 2 = 0")
    case True
    with "1.prems" have "n = Suc 0" by presburger
    then show ?thesis by (simp add: bitlen_one)
  next
    case False
    then have pos: "0 < n div 2" by simp
    from "1.IH" "1.prems" pos
    have ih: "2 ^ (bitlen (n div 2) - 1) \<le> n div 2" "n div 2 < 2 ^ bitlen (n div 2)"
      by simp_all
    have bl: "bitlen n = Suc (bitlen (n div 2))"
      using "1.prems" by (subst bitlen.simps) simp
    have bpos: "0 < bitlen (n div 2)"
      using pos by (subst bitlen.simps) simp
    then have "(2::nat) ^ bitlen (n div 2) = 2 * 2 ^ (bitlen (n div 2) - 1)"
      by (cases "bitlen (n div 2)") simp_all
    with ih have "2 ^ bitlen (n div 2) \<le> n" by linarith
    moreover from ih have "n < 2 * 2 ^ bitlen (n div 2)" by linarith
    ultimately show ?thesis by (simp add: bl)
  qed
qed

lemma round_nat_small: "n < 2 ^ 53 \<Longrightarrow> round_nat n = n"
  by (simp add: round_nat_def)

lemma round_nat_large:
  assumes "2 ^ 53 \<le> n"
  shows "2 ^ 53 \<le> round_nat n"
proof -
  define e where "e = bitlen n - 53"
  define q where "q = n div 2 ^ e"
  from assms have pos: "0 < n" by (simp add: order.strict_trans2[of 0 "2 ^ 53"])
  from bitlen_bounds[OF pos] have lo: "2 ^ (bitlen n - 1) \<le> n" and hi: "n < 2 ^ bitlen n"
    by simp_all
  have "(2::nat) ^ 53 < 2 ^ bitlen n" using assms hi by linarith
  from power_less_imp_less_exp[OF _ this] have b54: "53 < bitlen n" by simp
  then have e1: "1 \<le> e" and be: "bitlen n - 1 = e + 52" by (simp_all add: e_def)
  have "(2::nat) ^ (e + 52) div 2 ^ e \<le> n div 2 ^ e"
    using lo be by (simp add: div_le_mono)
  then have q52: "2 ^ 52 \<le> q"
    by (simp add: q_def power_add)
  have two: "(2::nat) ^ 1 \<le> 2 ^ e"
    using e1 by (intro power_increasing) simp_all
  have "(2::nat) ^ 53 = 2 ^ 52 * 2 ^ 1" by simp
  also have "\<dots> \<le> q * 2 ^ e"
    using q52 two by (rule mult_le_mono)
  finally have base: "2 ^ 53 \<le> q * 2 ^ e" .
  have "q * 2 ^ e \<le> (q + 1) * 2 ^ e" by simp
  with base have up: "2 ^ 53 \<le> (q + 1) * 2 ^ e" by linarith
  have "round_nat n = q * 2 ^ e \<or> round_nat n = (q + 1) * 2 ^ e"
    using assms by (auto simp: round_nat_def Let_def e_def q_def)
  with base up show ?thesis by auto
qed

lemma double_of_small: "\<bar>i\<bar> < 2 ^ 53 \<Longrightarrow> double_of i = Fin i"
proof -
  assume a: "\<bar>i\<bar> < 2 ^ 53"
  then have "nat \<bar>i\<bar> < 2 ^ 53" by (simp add: nat_less_iff)
  then have r: "round_nat (nat \<bar>i\<bar>) = nat \<bar>i\<bar>" by (rule round_nat_small)
  have "nat \<bar>i\<bar> < 2 ^ 53" by fact
  also have "(2::nat) ^ 53 \<le> 2 ^ 1024" by (rule power_increasing) simp_all
  finally have "\<not> 2 ^ 1024 \<le> nat \<bar>i\<bar>" by simp
  then show ?thesis by (simp add: double_of_def r Let_def)
qed

lemma double_of_cases:
  "double_of i = Infinity \<and> 0 \<le> i \<and> 2 ^ 53 \<le> i
   \<or> double_of i = NegInfinity \<and> i < 0 \<and> i \<le> - (2 ^ 53)
   \<or> (\<exists>k. double_of i = Fin k \<and> (\<bar>i\<bar> < 2 ^ 53 \<longrightarrow> k = i) \<and>
           (2 ^ 53 \<le> i \<longrightarrow> 2 ^ 53 \<le> k) \<and> (i \<le> - (2 ^ 53) \<longrightarrow> k \<le> - (2 ^ 53)) \<and>
           (0 \<le> i \<longrightarrow> 0 \<le> k) \<and> (i < 0 \<longrightarrow> k \<le> 0))"
proof (cases "\<bar>i\<bar> < 2 ^ 53")
  case True
  then show ?thesis by (simp add: double_of_small)
next
  case False
  then have "2 ^ 53 \<le> nat \<bar>i\<bar>" by (simp add: le_nat_iff)
  from round_nat_large[OF this] have m: "2 ^ 53 \<le> round_nat (nat \<bar>i\<bar>)" .
  then have mi: "2 ^ 53 \<le> int (round_nat (nat \<bar>i\<bar>))"
    by (metis of_nat_le_iff of_nat_numeral of_nat_power)
  show ?thesis
    using False mi by (auto simp: double_of_def Let_def)
qed

lemma double_of_not_NaN [simp]: "double_of i \<noteq> NaN"
  using double_of_cases[of i] by auto

lemma one_le_double_of: "num_le (Fin 1) (double_of n) \<longleftrightarrow> 1 \<le> n"
  using double_of_cases[of n] by (cases "\<bar>n\<bar> < 2 ^ 53") auto

lemma double_of_le_100: "num_le (double_of n) (Fin 100) \<longleftrightarrow> n \<le> 100"
  using double_of_cases[of n] by (cases "\<bar>n\<bar> < 2 ^ 53") auto

lemma double_of_nonneg:
  "0 \<le> i \<Longrightarrow> double_of i = Infinity \<or> (\<exists>k. double_of i = Fin k \<and> 0 \<le> k)"
  using double_of_cases[of i] by auto

lemma max_one_double_of: "1 \<le> n \<Longrightarrow> Math_max (Fin 1) (double_of n) = double_of n"
  using one_le_double_of[of n] by (simp add: Math_max_def)

subsection \<open>Integer literals\<close>

lemma int_syntax_nonempty: "int_syntax s \<Longrightarrow> s \<noteq> []"
  by (auto simp: int_syntax_def strip_sign_def)

lemma digit_not_space: "is_digit c \<Longrightarrow> \<not> is_space c"
  by (auto simp: is_digit_def is_space_def)

lemma sign_not_space: "\<not> is_space CHR ''-''" "\<not> is_space CHR ''+''"
  by (simp_all add: is_space_def)

lemma takeWhile_all: "list_all P xs \<Longrightarrow> takeWhile P xs = xs"
  by (induction xs) auto

lemma parseInt_literal:
  assumes "int_syntax s"
  shows "parseInt s = double_of (int_value s)"
proof -
  obtain c r where s: "s = c # r" using int_syntax_nonempty[OF assms] by (cases s) auto
  have nospace: "\<not> is_space c"
    using assms s sign_not_space digit_not_space[of c]
    by (auto simp: int_syntax_def strip_sign_def split: if_splits)
  then have d: "dropWhile is_space s = s" by (simp add: s)
  from assms have all: "list_all is_digit (snd (strip_sign s))" and ne: "snd (strip_sign s) \<noteq> []"
    by (simp_all add: int_syntax_def Let_def)
  show ?thesis
    using ne by (simp add: parseInt_def d case_prod_beta takeWhile_all[OF all] int_value_def)
qed

lemma parseInt_defaults: "parseInt ''1'' = Fin 1" "parseInt ''10'' = Fin 10"
  by (simp_all add: parseInt_def strip_sign_def is_space_def is_digit_def digits_val_def
      double_of_small)

lemma isInt_page: "isInt (Some 1) None s \<longleftrightarrow> int_syntax s \<and> 1 \<le> int_value s"
  using parseInt_literal[of s] by (auto simp: isInt_def one_le_double_of)

lemma isInt_limit:
  "isInt (Some 1) (Some 100) s \<longleftrightarrow> int_syntax s \<and> 1 \<le> int_value s \<and> int_value s \<le> 100"
  using parseInt_literal[of s] by (auto simp: isInt_def one_le_double_of double_of_le_100)

subsection \<open>Validation chains\<close>

lemma show_nat_nonempty: "show_nat n \<noteq> []"
  by (subst show_nat.simps) simp

lemma show_nat_single:
  assumes "show_nat n = [c]"
  shows "n < 10 \<and> (of_char c :: nat) = 48 + n"
proof (cases "n < 10")
  case True
  with assms have "c = char_of (48 + n)" by (subst (asm) show_nat.simps) simp
  then have "(of_char c :: nat) = (48 + n) mod 256" by simp
  with True show ?thesis by simp
next
  case False
  with assms have "show_nat (n div 10) @ [char_of (48 + n mod 10)] = [c]"
    by (subst (asm) show_nat.simps) simp
  then show ?thesis using show_nat_nonempty[of "n div 10"] by simp
qed

lemma show_nat_one: "show_nat n = ''1'' \<Longrightarrow> n = 1"
  using show_nat_single[of n "CHR ''1''"] by simp

lemma show_nat_zero: "show_nat n = ''0'' \<Longrightarrow> n = 0"
  using show_nat_single[of n "CHR ''0''"] by simp

lemma show_nat_last_digit: "show_nat n \<noteq> [] \<and> is_digit (last (show_nat n))"
proof -
  have "(of_char (char_of (48 + n mod 10)) :: nat) = 48 + n mod 10"
    by (simp add: mod_less)
  then have a: "is_digit (char_of (48 + n mod 10))"
    unfolding is_digit_def by simp
  have "n < 10 \<Longrightarrow> (of_char (char_of (48 + n)) :: nat) = 48 + n"
    by simp
  then have b: "n < 10 \<Longrightarrow> is_digit (char_of (48 + n))"
    unfolding is_digit_def by simp
  show ?thesis
    using a b by (subst (1 2) show_nat.simps) simp
qed

lemma show_nat_not_word: "show_nat n \<noteq> ''true''" "show_nat n \<noteq> ''false''"
  using show_nat_last_digit[of n] by (auto simp: is_digit_def)

lemma castBoolean_array: "castBoolean (JArr xs) = None"
  by (simp add: castBoolean_def)

lemma isBoolean_castBoolean:
  assumes "isBoolean (toString (Some v))" and "\<forall>xs. v \<noteq> JArr xs"
  shows "\<exists>b. castBoolean v = Some b"
proof (cases v)
  case JNull
  with assms show ?thesis by (simp add: isBoolean_def)
next
  case (JBool b)
  then show ?thesis by (simp add: castBoolean_def)
next
  case (JNum n)
  show ?thesis
  proof (cases "n < 0")
    case True
    with assms JNum show ?thesis by (simp add: isBoolean_def)
  next
    case False
    with assms JNum have "show_nat (nat n) \<in> {''true'', ''false'', ''1'', ''0''}"
      by (simp add: isBoolean_def)
    then have "nat n = 1 \<or> nat n = 0"
      using show_nat_not_word[of "nat n"] show_nat_one[of "nat n"] show_nat_zero[of "nat n"]
      by auto
    with False have "n = 1 \<or> n = 0" by auto
    with JNum show ?thesis by (auto simp: castBoolean_def)
  qed
next
  case (JStr s)
  with assms show ?thesis by (auto simp: isBoolean_def castBoolean_def)
next
  case (JArr xs)
  with assms show ?thesis by simp
qed

lemma check_Nil: "check passed f m = [] \<longleftrightarrow> passed"
  by (simp add: check_def)

lemma check_each_Nil:
  "check_each valid v f m = [] \<longleftrightarrow> list_all (\<lambda>x. valid (toString x)) (values_of v)"
  by (induction "values_of v") (auto simp: check_each_def check_def list_all_iff)

lemma values_of_scalar: "\<forall>xs. v \<noteq> Some (JArr xs) \<Longrightarrow> values_of v = [v]"
  by (auto simp: values_of_def split: option.splits json.splits)

lemma isString_iff: "isString v \<longleftrightarrow> (\<exists>s. v = Some (JStr s))"
  by (auto simp: isString_def split: option.splits json.splits)

lemma title_chain_Nil:
  "title_chain msg v = [] \<longleftrightarrow> (\<exists>s. v = Some (JStr s) \<and> trim s \<noteq> [])"
  by (auto simp: title_chain_def check_Nil check_each_Nil isString_iff trim_value_def values_of_def)

lemma post_root_validation_Nil:
  "post_root_validation b = [] \<longleftrightarrow>
     (\<exists>s. b ''title'' = Some (JStr s) \<and> trim s \<noteq> []) \<and>
     (b ''description'' = None \<or> (\<exists>d. b ''description'' = Some (JStr d)))"
  by (auto simp: post_root_validation_def title_chain_Nil optional_def check_Nil isString_iff
      split: option.splits)

lemma put_id_validation_Nil:
  "put_id_validation i b = [] \<longleftrightarrow>
     isMongoId i \<and>
     (b ''title'' = None \<or> (\<exists>s. b ''title'' = Some (JStr s) \<and> trim s \<noteq> [])) \<and>
     (b ''description'' = None \<or> (\<exists>d. b ''description'' = Some (JStr d))) \<and>
     (b ''completed'' = None \<or>
      (\<exists>v. b ''completed'' = Some v \<and>
           list_all (\<lambda>x. isBoolean (toString x)) (values_of (Some v))))"
  by (auto simp: put_id_validation_def id_validation_def title_chain_Nil optional_def check_Nil
      check_each_Nil isString_iff split: option.splits)

subsection \<open>Identifiers\<close>

lemma hex_not_prefix_letter:
  "is_hex c \<Longrightarrow> c \<noteq> CHR ''x'' \<and> c \<noteq> CHR ''X'' \<and> c \<noteq> CHR ''h'' \<and> c \<noteq> CHR ''H''"
  by (auto simp: is_hex_def is_digit_def)

lemma object_id_isMongoId:
  assumes "is_object_id i"
  shows "isMongoId i"
proof -
  from assms have len: "length i = 24" and hex: "list_all is_hex i"
    by (simp_all add: is_object_id_def)
  from len obtain a c r where i: "i = a # c # r"
    by (cases i; cases "tl i") auto
  with hex have "is_hex c" by simp
  from hex_not_prefix_letter[OF this] have "take 2 i \<notin> {''0x'', ''0X'', ''0h'', ''0H''}"
    by (auto simp: i)
  with len hex show ?thesis
    by (auto simp: isMongoId_def isHexadecimal_def)
qed

lemma cast_oid_Some_iff: "(\<exists>k. cast_oid i = Some k) \<longleftrightarrow> is_object_id i"
  by (simp add: cast_oid_def)

lemma cast_oid_None_iff: "cast_oid i = None \<longleftrightarrow> \<not> is_object_id i"
  by (simp add: cast_oid_def)

subsection \<open>Filters and the collection\<close>

lemma matches_id_filter:
  "matches (id_filter u i) t \<longleftrightarrow> cast_oid i = Some (tid t) \<and> owner t = u"
  by (simp add: matches_def id_filter_def)

lemma matches_id_filter_fun:
  "cast_oid i = Some k \<Longrightarrow> matches (id_filter u i) = (\<lambda>x. tid x = k \<and> owner x = u)"
  by (rule ext) (auto simp: matches_id_filter)

lemma id_filter_castable: "filter_castable (id_filter u i) \<longleftrightarrow> is_object_id i"
  by (simp add: filter_castable_def id_filter_def cast_oid_def)

lemma list_filter_castable: "filter_castable (list_filter u q)"
  by (simp add: filter_castable_def list_filter_def)

lemma matches_list_filter: "matches (list_filter u q) t \<Longrightarrow> owner t = u"
  by (simp add: matches_def list_filter_def)

lemma find_in_set: "find P xs = Some x \<Longrightarrow> x \<in> set xs \<and> P x"
  by (induction xs) (auto split: if_splits)

lemma find_by_tid_unique:
  "distinct (map tid xs) \<Longrightarrow> t \<in> set xs \<Longrightarrow> find (\<lambda>x. tid x = tid t) xs = Some t"
  by (induction xs) auto

lemma find_tid_None: "i \<notin> tid ` set xs \<Longrightarrow> find (\<lambda>x. tid x = i) xs = None"
  by (induction xs) auto

lemma find_owned:
  assumes "distinct (map tid xs)"
  shows "find (\<lambda>x. tid x = i \<and> owner x = u) xs =
           (case find (\<lambda>x. tid x = i) xs of
              None \<Rightarrow> None
            | Some t \<Rightarrow> if owner t = u then Some t else None)"
  using assms by (induction xs) (auto simp: find_tid_None)

lemma map_update_first: "(\<And>x. f (g x) = f x) \<Longrightarrow> map f (update_first P g xs) = map f xs"
  by (induction xs) auto

lemma lookup_update_first:
  assumes "distinct (map tid xs)" "\<And>x. tid (g x) = tid x" "find P xs = Some t"
  shows "find (\<lambda>x. tid x = j) (update_first P g xs) =
           (if j = tid t then Some (g t) else find (\<lambda>x. tid x = j) xs)"
  using assms
proof (induction xs)
  case Nil
  then show ?case by simp
next
  case (Cons a xs)
  show ?case
  proof (cases "P a")
    case True
    with Cons.prems have "t = a" by simp
    with True Cons.prems(2) show ?thesis by auto
  next
    case False
    with Cons.prems have f: "find P xs = Some t" and d: "distinct (map tid xs)" by auto
    from find_in_set[OF f] Cons.prems(1) have "tid a \<noteq> tid t" by auto
    with False Cons.IH[OF d Cons.prems(2) f] show ?thesis by auto
  qed
qed

lemma lookup_remove1:
  assumes "distinct (map tid xs)" "t \<in> set xs"
  shows "find (\<lambda>x. tid x = j) (remove1 t xs) =
           (if j = tid t then None else find (\<lambda>x. tid x = j) xs)"
  using assms
proof (induction xs)
  case Nil
  then show ?case by simp
next
  case (Cons a xs)
  show ?case
  proof (cases "a = t")
    case True
    with Cons.prems(1) have "tid t \<notin> tid ` set xs" by simp
    with True show ?thesis by (simp add: find_tid_None)
  next
    case False
    with Cons.prems have "t \<in> set xs" "distinct (map tid xs)" by auto
    with Cons.IH Cons.prems(1) False show ?thesis by auto
  qed
qed

lemma lookup_append_fresh:
  "find (\<lambda>x. tid x = j) (xs @ [t]) =
     (case find (\<lambda>x. tid x = j) xs of
        Some x \<Rightarrow> Some x
      | None \<Rightarrow> if tid t = j then Some t else None)"
  by (induction xs) auto

lemma distinct_tid_remove1: "distinct (map tid xs) \<Longrightarrow> distinct (map tid (remove1 t xs))"
proof (induction xs)
  case Nil
  then show ?case by simp
next
  case (Cons a xs)
  have "tid ` set (remove1 t xs) \<subseteq> tid ` set xs"
    using set_remove1_subset[of t xs] by blast
  with Cons show ?case by auto
qed

lemma tid_apply_set [simp]: "tid (apply_set c t) = tid t"
  by (simp add: apply_set_def)

lemma createdAt_apply_set [simp]: "createdAt (apply_set c t) = createdAt t"
  by (simp add: apply_set_def)

lemma owner_apply_set: "c_owner c = None \<Longrightarrow> owner (apply_set c t) = owner t"
  by (simp add: apply_set_def)

lemma find_id_filter:
  assumes "store_ok st" and "cast_oid i = Some k"
  shows "find (matches (id_filter u i)) (docs st) =
           (case lookup st k of
              None \<Rightarrow> None
            | Some t \<Rightarrow> if owner t = u then Some t else None)"
  using assms find_owned[of "docs st" k u]
  by (simp add: matches_id_filter_fun store_ok_def lookup_def)

lemma find_id_filter_None:
  "find (matches (id_filter u i)) (docs st) = None \<longleftrightarrow>
     \<not> (\<exists>t\<in>set (docs st). cast_oid i = Some (tid t) \<and> owner t = u)"
  by (auto simp: matches_id_filter find_None_iff)

lemma find_update_first:
  "find P xs = Some t \<Longrightarrow> P (g t) \<Longrightarrow> find P (update_first P g xs) = Some (g t)"
  by (induction xs) (auto split: if_splits)

lemma update_first_twice:
  assumes "\<And>x. P x \<Longrightarrow> P (g x)" "\<And>x. g (g x) = g x"
  shows "update_first P g (update_first P g xs) = update_first P g xs"
  using assms by (induction xs) auto

subsection \<open>What the update route hands to the collection\<close>

lemma put_updates_owner: "put_updates b ''owner'' = None"
  by (simp add: put_updates_def restrict_map_def)

lemma cast_update_put_updates:
  "cast_update (put_updates b) = Some c \<Longrightarrow> c_owner c = None"
  by (auto simp: cast_update_def put_updates_owner cast_path_def split: option.splits)

lemma cast_array_update:
  assumes "b ''completed'' = Some (JArr xs)"
  shows "cast_update (put_updates (sanitize_title_optional b)) = None"
  using assms
  by (auto simp: cast_update_def put_updates_def restrict_map_def sanitize_title_optional_def
      sanitize_title_def cast_path_def castBoolean_def split: option.splits)

lemma cast_valid_update:
  assumes "put_id_validation i b = []" and "\<forall>xs. b ''completed'' \<noteq> Some (JArr xs)"
  shows "\<exists>c. cast_update (put_updates (sanitize_title_optional b)) = Some c \<and>
           c_owner c = None \<and>
           c_title c = map_option (\<lambda>v. trim (toString (Some v))) (b ''title'') \<and>
           c_description c = map_option (\<lambda>v. toString (Some v)) (b ''description'') \<and>
           (case b ''completed'' of
              None \<Rightarrow> c_completed c = None
            | Some v \<Rightarrow> c_completed c = castBoolean v \<and> castBoolean v \<noteq> None)"
proof -
  from assms(1) have t: "b ''title'' = None \<or> (\<exists>s. b ''title'' = Some (JStr s) \<and> trim s \<noteq> [])"
    and d: "b ''description'' = None \<or> (\<exists>d. b ''description'' = Some (JStr d))"
    and k: "b ''completed'' = None \<or>
      (\<exists>v. b ''completed'' = Some v \<and>
           list_all (\<lambda>x. isBoolean (toString x)) (values_of (Some v)))"
    by (simp_all add: put_id_validation_Nil)
  have k': "b ''completed'' = None \<or> (\<exists>v x. b ''completed'' = Some v \<and> castBoolean v = Some x)"
  proof (cases "b ''completed''")
    case None
    then show ?thesis by simp
  next
    case (Some v)
    with assms(2) have na: "\<forall>xs. v \<noteq> JArr xs" by simp
    then have "values_of (Some v) = [Some v]" by (simp add: values_of_scalar)
    with k Some have "isBoolean (toString (Some v))" by simp
    from isBoolean_castBoolean[OF this na] Some show ?thesis by simp
  qed
  show ?thesis
    using t d k'
    by (auto simp: cast_update_def put_updates_def restrict_map_def sanitize_title_optional_def
        sanitize_title_def cast_path_def castString_def trim_value_def)
qed

subsection \<open>The routes after validation\<close>

lemma router_put_id_invalid:
  "put_id_validation i b \<noteq> [] \<Longrightarrow>
     router_put_id uid i b st = (Inl (ValidationError (put_id_validation i b)), st)"
  by (simp add: router_put_id_def handleValidation_def)

lemma router_put_id_uncastable:
  "put_id_validation i b = [] \<Longrightarrow> \<not> is_object_id i \<Longrightarrow>
     router_put_id uid i b st = (Inl InternalFailure, st)"
  by (simp add: router_put_id_def handleValidation_def Task_findOneAndUpdate_def
      id_filter_castable)

lemma router_put_id_array:
  "put_id_validation i b = [] \<Longrightarrow> b ''completed'' = Some (JArr xs) \<Longrightarrow>
     router_put_id uid i b st = (Inl InternalFailure, st)"
  by (simp add: router_put_id_def handleValidation_def Task_findOneAndUpdate_def
      cast_array_update)

lemma router_put_id_valid:
  assumes "put_id_validation i b = []" and "is_object_id i"
    and "\<forall>xs. b ''completed'' \<noteq> Some (JArr xs)"
  shows "\<exists>c. c_owner c = None \<and>
           c_title c = map_option (\<lambda>v. trim (toString (Some v))) (b ''title'') \<and>
           c_description c = map_option (\<lambda>v. toString (Some v)) (b ''description'') \<and>
           (case b ''completed'' of
              None \<Rightarrow> c_completed c = None
            | Some v \<Rightarrow> c_completed c = castBoolean v \<and> castBoolean v \<noteq> None) \<and>
           router_put_id uid i b st =
             (case find (matches (id_filter uid i)) (docs st) of
                None \<Rightarrow> (Inl NotFound, st)
              | Some t \<Rightarrow>
                  (Inr (Task_body (apply_set c t)),
                   st\<lparr>docs := update_first (matches (id_filter uid i)) (apply_set c) (docs st)\<rparr>))"
proof -
  from cast_valid_update[OF assms(1,3)] obtain c where
    c: "cast_update (put_updates (sanitize_title_optional b)) = Some c"
    and rest: "c_owner c = None"
      "c_title c = map_option (\<lambda>v. trim (toString (Some v))) (b ''title'')"
      "c_description c = map_option (\<lambda>v. toString (Some v)) (b ''description'')"
      "case b ''completed'' of
              None \<Rightarrow> c_completed c = None
            | Some v \<Rightarrow> c_completed c = castBoolean v \<and> castBoolean v \<noteq> None"
    by blast
  have "router_put_id uid i b st =
             (case find (matches (id_filter uid i)) (docs st) of
                None \<Rightarrow> (Inl NotFound, st)
              | Some t \<Rightarrow>
                  (Inr (Task_body (apply_set c t)),
                   st\<lparr>docs := update_first (matches (id_filter uid i)) (apply_set c) (docs st)\<rparr>))"
    using assms c
    by (simp add: router_put_id_def handleValidation_def Task_findOneAndUpdate_def
        id_filter_castable split: option.splits)
  with rest show ?thesis by blast
qed

lemma router_put_id_success:
  assumes "router_put_id uid i b st = (Inr r, st')"
  shows "put_id_validation i b = [] \<and> is_object_id i \<and>
         (\<forall>xs. b ''completed'' \<noteq> Some (JArr xs))"
proof -
  have v: "put_id_validation i b = []"
    using assms router_put_id_invalid[of i b uid st] by (cases "put_id_validation i b = []") auto
  have o: "is_object_id i"
    using assms router_put_id_uncastable[OF v, of uid st] by (cases "is_object_id i") auto
  have a: "\<forall>xs. b ''completed'' \<noteq> Some (JArr xs)"
    using assms router_put_id_array[OF v, of _ uid st] by auto
  from v o a show ?thesis by blast
qed

lemma router_post_root_invalid:
  "post_root_validation b \<noteq> [] \<Longrightarrow>
     router_post_root uid b now st = (Inl (ValidationError (post_root_validation b)), st)"
  by (simp add: router_post_root_def handleValidation_def)

lemma router_post_root_valid:
  assumes "post_root_validation b = []"
  shows "router_post_root uid b now st =
           (Inr (Task_created
                  \<lparr>tid = next_id st, title = trim (toString (b ''title'')),
                   description = toString (b ''description''), completed = False,
                   owner = uid, createdAt = now\<rparr>),
            st\<lparr>docs := docs st @
                   [\<lparr>tid = next_id st, title = trim (toString (b ''title'')),
                     description = toString (b ''description''), completed = False,
                     owner = uid, createdAt = now\<rparr>],
               next_id := Suc (next_id st)\<rparr>)"
proof -
  from assms obtain s where s: "b ''title'' = Some (JStr s)"
    and d: "b ''description'' = None \<or> (\<exists>d. b ''description'' = Some (JStr d))"
    by (auto simp: post_root_validation_Nil)
  from d have "Option.bind (or_empty (sanitize_title b ''description'')) castString =
      Some (toString (b ''description''))"
    by (auto simp: or_empty_def sanitize_title_def castString_def)
  moreover have "Option.bind (sanitize_title b ''title'') castString = Some (trim (toString (b ''title'')))"
    using s by (simp add: sanitize_title_def castString_def trim_value_def)
  ultimately show ?thesis
    using assms
    by (simp add: router_post_root_def handleValidation_def Task_create_def Let_def)
qed

lemma router_delete_id_valid:
  "is_object_id i \<Longrightarrow>
     router_delete_id uid i st =
       (case find (matches (id_filter uid i)) (docs st) of
          None \<Rightarrow> (Inl NotFound, st)
        | Some t \<Rightarrow> (Inr Task_deleted, st\<lparr>docs := remove1 t (docs st)\<rparr>))"
  by (simp add: router_delete_id_def handleValidation_def id_validation_def check_def
      Task_findOneAndDelete_def id_filter_castable object_id_isMongoId split: option.splits)

lemma router_delete_id_uncastable:
  "isMongoId i \<Longrightarrow> \<not> is_object_id i \<Longrightarrow> router_delete_id uid i st = (Inl InternalFailure, st)"
  by (simp add: router_delete_id_def handleValidation_def id_validation_def check_def
      Task_findOneAndDelete_def id_filter_castable)

lemma router_delete_id_invalid:
  "\<not> isMongoId i \<Longrightarrow>
     router_delete_id uid i st = (Inl (ValidationError [(''id'', ''invalid task id'')]), st)"
  by (simp add: router_delete_id_def handleValidation_def id_validation_def check_def)

lemma router_get_id_valid:
  "is_object_id i \<Longrightarrow>
     router_get_id uid i st =
       (case find (matches (id_filter uid i)) (docs st) of
          None \<Rightarrow> Inl NotFound
        | Some t \<Rightarrow> Inr (Task_body t))"
  by (simp add: router_get_id_def handleValidation_def id_validation_def check_def
      Task_findOne_def id_filter_castable object_id_isMongoId split: option.splits)

lemma router_get_id_uncastable:
  "isMongoId i \<Longrightarrow> \<not> is_object_id i \<Longrightarrow> router_get_id uid i st = Inl InternalFailure"
  by (simp add: router_get_id_def handleValidation_def id_validation_def check_def
      Task_findOne_def id_filter_castable)

lemma router_get_id_invalid:
  "\<not> isMongoId i \<Longrightarrow>
     router_get_id uid i st = Inl (ValidationError [(''id'', ''invalid task id'')])"
  by (simp add: router_get_id_def handleValidation_def id_validation_def check_def)

subsection \<open>Paging of the list route\<close>

lemma round_nat_upper: "round_nat n \<le> 2 * n"
proof (cases "n < 2 ^ 53")
  case True
  then show ?thesis by (simp add: round_nat_def)
next
  case False
  define e where "e = bitlen n - 53"
  define q where "q = n div 2 ^ e"
  from False have pos: "0 < n" by (cases "n = 0") simp_all
  from bitlen_bounds[OF pos] have lo: "2 ^ (bitlen n - 1) \<le> n" by simp
  have "(2::nat) ^ e \<le> 2 ^ (bitlen n - 1)"
    by (rule power_increasing) (simp_all add: e_def)
  with lo have e: "2 ^ e \<le> n" by linarith
  have q: "q * 2 ^ e \<le> n" by (simp add: q_def)
  have "(q + 1) * 2 ^ e = q * 2 ^ e + 2 ^ e" by (simp add: algebra_simps)
  with q e have up: "(q + 1) * 2 ^ e \<le> 2 * n" by linarith
  have "round_nat n = q * 2 ^ e \<or> round_nat n = (q + 1) * 2 ^ e"
    using False by (auto simp: round_nat_def Let_def e_def q_def)
  with q up show ?thesis by auto
qed

lemma double_of_skip:
  assumes "0 \<le> n" and "n < 2 ^ 61"
  shows "\<exists>k. double_of n = Fin k \<and> 0 \<le> k \<and> k < 2 ^ 63"
proof -
  let ?m = "round_nat (nat \<bar>n\<bar>)"
  from assms have "nat \<bar>n\<bar> < 2 ^ 61" by (simp add: nat_less_iff)
  with round_nat_upper[of "nat \<bar>n\<bar>"] have m: "?m < 2 ^ 62" by simp
  also have "(2::nat) ^ 62 \<le> 2 ^ 1024" by (rule power_increasing) simp_all
  finally have fin: "\<not> 2 ^ 1024 \<le> ?m" by simp
  from m have "int ?m < int (2 ^ 62)" by (simp only: of_nat_less_iff)
  then have "int ?m < 2 ^ 63" by simp
  with fin assms(1) show ?thesis by (simp add: double_of_def Let_def)
qed

lemma get_root_validation_Nil:
  "get_root_validation q = [] \<longleftrightarrow>
     (case q ''completed'' of None \<Rightarrow> True | Some s \<Rightarrow> s \<in> {''true'', ''false''}) \<and>
     (case q ''page'' of None \<Rightarrow> True | Some s \<Rightarrow> int_syntax s \<and> 1 \<le> int_value s) \<and>
     (case q ''limit'' of None \<Rightarrow> True
      | Some s \<Rightarrow> int_syntax s \<and> 1 \<le> int_value s \<and> int_value s \<le> 100)"
  by (simp add: get_root_validation_def optional_def check_Nil isInt_page isInt_limit
      split: option.splits)

lemma page_error:
  "q ''page'' = Some s \<Longrightarrow> \<not> (int_syntax s \<and> 1 \<le> int_value s) \<Longrightarrow>
     (''page'', ''page must be >= 1'') \<in> set (get_root_validation q)"
  by (auto simp: get_root_validation_def optional_def check_def isInt_page)

lemma limit_error:
  "q ''limit'' = Some s \<Longrightarrow> \<not> (int_syntax s \<and> 1 \<le> int_value s \<and> int_value s \<le> 100) \<Longrightarrow>
     (''limit'', ''limit must be between 1 and 100'') \<in> set (get_root_validation q)"
  by (auto simp: get_root_validation_def optional_def check_def isInt_limit)

lemma list_page_accepted:
  assumes "get_root_validation q = []"
  shows "list_page q = (case q ''page'' of None \<Rightarrow> Fin 1 | Some s \<Rightarrow> double_of (int_value s))"
proof (cases "q ''page''")
  case None
  then show ?thesis
    by (simp add: list_page_def or_default_def parseInt_defaults Math_max_def)
next
  case (Some s)
  with assms have s: "int_syntax s" "1 \<le> int_value s"
    by (simp_all add: get_root_validation_Nil)
  from int_syntax_nonempty[OF s(1)] Some have "or_default (q ''page'') ''1'' = s"
    by (simp add: or_default_def)
  then show ?thesis
    using Some s by (simp add: list_page_def parseInt_literal max_one_double_of)
qed

lemma list_limit_accepted:
  assumes "get_root_validation q = []"
  shows "list_limit q = (case q ''limit'' of None \<Rightarrow> Fin 10 | Some s \<Rightarrow> Fin (int_value s))"
proof (cases "q ''limit''")
  case None
  then show ?thesis
    by (simp add: list_limit_def or_default_def parseInt_defaults Math_max_def Math_min_def)
next
  case (Some s)
  with assms have s: "int_syntax s" "1 \<le> int_value s" "int_value s \<le> 100"
    by (simp_all add: get_root_validation_Nil)
  from int_syntax_nonempty[OF s(1)] Some have d: "or_default (q ''limit'') ''10'' = s"
    by (simp add: or_default_def)
  from s have "\<bar>int_value s\<bar> < 2 ^ 53" by simp
  then have "parseInt s = Fin (int_value s)"
    using parseInt_literal[OF s(1)] by (simp add: double_of_small)
  then show ?thesis
    using Some s d by (simp add: list_limit_def Math_max_def Math_min_def)
qed

lemma list_limit_range:
  assumes "get_root_validation q = []"
  shows "\<exists>l. list_limit q = Fin l \<and> 1 \<le> l \<and> l \<le> 100"
  using assms list_limit_accepted[OF assms]
  by (cases "q ''limit''") (simp_all add: get_root_validation_Nil)

lemma list_skip:
  assumes "get_root_validation q = []"
    and "case q ''page'' of None \<Rightarrow> True | Some s \<Rightarrow> int_value s < 2 ^ 53"
  shows "list_page q = (case q ''page'' of None \<Rightarrow> Fin 1 | Some s \<Rightarrow> Fin (int_value s)) \<and>
         (\<exists>k. num_mul (num_sub (list_page q) (Fin 1)) (list_limit q) = Fin k \<and>
              0 \<le> k \<and> k < 2 ^ 63)"
proof -
  define p where "p = (case q ''page'' of None \<Rightarrow> 1 | Some s \<Rightarrow> int_value s)"
  from assms have p: "1 \<le> p" "p < 2 ^ 53"
    by (auto simp: p_def get_root_validation_Nil split: option.splits)
  then have "double_of p = Fin p" by (simp add: double_of_small)
  then have pg: "list_page q = Fin p"
    using list_page_accepted[OF assms(1)] by (simp add: p_def split: option.splits)
  from list_limit_range[OF assms(1)] obtain l where l: "list_limit q = Fin l" "1 \<le> l" "l \<le> 100"
    by blast
  from p have "double_of (p - 1) = Fin (p - 1)" by (simp add: double_of_small)
  then have sub: "num_sub (list_page q) (Fin 1) = Fin (p - 1)" by (simp add: pg)
  have n0: "0 \<le> (p - 1) * l" using p l by simp
  have "(p - 1) * l \<le> (p - 1) * 100" using p l by (intro mult_left_mono) simp_all
  also have "\<dots> < 2 ^ 53 * 100" using p by simp
  also have "\<dots> < (2::int) ^ 61" by simp
  finally have n1: "(p - 1) * l < 2 ^ 61" .
  from double_of_skip[OF n0 n1] have "\<exists>k. num_mul (Fin (p - 1)) (Fin l) = Fin k \<and> 0 \<le> k \<and> k < 2 ^ 63"
    by simp
  then have "\<exists>k. num_mul (num_sub (list_page q) (Fin 1)) (list_limit q) = Fin k \<and>
              0 \<le> k \<and> k < 2 ^ 63"
    by (simp only: sub l)
  moreover have "list_page q = (case q ''page'' of None \<Rightarrow> Fin 1 | Some s \<Rightarrow> Fin (int_value s))"
    using pg by (simp add: p_def split: option.splits)
  ultimately show ?thesis by blast
qed

lemma router_get_root_invalid:
  "get_root_validation q \<noteq> [] \<Longrightarrow>
     router_get_root uid q st = Inl (ValidationError (get_root_validation q))"
  by (simp add: router_get_root_def handleValidation_def)

lemma router_get_root_Inr:
  assumes "router_get_root uid q st = Inr r"
  shows "get_root_validation q = [] \<and>
         (\<exists>found.
            Task_find (list_filter uid q) (sort_of_query (q ''sort''))
              (num_mul (num_sub (list_page q) (Fin 1)) (list_limit q)) (list_limit q) st = Some found \<and>
            r = Tasks_meta found
                  \<lparr>m_total = length (filter (matches (list_filter uid q)) (docs st)),
                   m_page = list_page q, m_limit = list_limit q,
                   m_pages = Math_ceil_div (length (filter (matches (list_filter uid q)) (docs st)))
                               (list_limit q)\<rparr>)"
  using assms
  by (auto simp: router_get_root_def handleValidation_def Let_def Task_countDocuments_def
      list_filter_castable split: if_splits option.splits)

lemma router_get_root_runs:
  assumes "get_root_validation q = []"
    and "case q ''page'' of None \<Rightarrow> True | Some s \<Rightarrow> int_value s < 2 ^ 53"
    and "order_by (sort_of_query (q ''sort'')) (filter (matches (list_filter uid q)) (docs st)) = Some sorted_docs"
  shows "\<exists>k l. num_mul (num_sub (list_page q) (Fin 1)) (list_limit q) = Fin k \<and> 0 \<le> k \<and>
           list_limit q = Fin l \<and> 1 \<le> l \<and> l \<le> 100 \<and>
           router_get_root uid q st =
             Inr (Tasks_meta (take (nat l) (drop (nat k) sorted_docs))
                   \<lparr>m_total = length (filter (matches (list_filter uid q)) (docs st)),
                    m_page = list_page q, m_limit = list_limit q,
                    m_pages = Math_ceil_div (length (filter (matches (list_filter uid q)) (docs st)))
                                (list_limit q)\<rparr>)"
proof -
  from list_skip[OF assms(1,2)] obtain k where
    k: "num_mul (num_sub (list_page q) (Fin 1)) (list_limit q) = Fin k" "0 \<le> k" "k < 2 ^ 63"
    by blast
  from list_limit_range[OF assms(1)] obtain l where l: "list_limit q = Fin l" "1 \<le> l" "l \<le> 100"
    by blast
  have "router_get_root uid q st =
             Inr (Tasks_meta (take (nat l) (drop (nat k) sorted_docs))
                   \<lparr>m_total = length (filter (matches (list_filter uid q)) (docs st)),
                    m_page = list_page q, m_limit = list_limit q,
                    m_pages = Math_ceil_div (length (filter (matches (list_filter uid q)) (docs st)))
                                (list_limit q)\<rparr>)"
    using assms(1,3) k l
    by (simp add: router_get_root_def handleValidation_def Let_def Task_find_def
        Task_countDocuments_def list_filter_castable page_of_def)
  with k l show ?thesis by blast
qed

lemma sort_of_query_absent: "sort_of_query None = Some (''createdAt'', - 1)"
  by (simp add: sort_of_query_def)

lemma valid_path_createdAt: "valid_path ''createdAt''"
  by (simp add: valid_path_def)

lemma order_by_default:
  "order_by (Some (''createdAt'', - 1)) ms = Some (rev (sort_key (field_key ''createdAt'') (rev ms)))"
  by (simp add: order_by_def valid_path_createdAt)

section \<open>Facts about the sample data\<close>

lemma milk_id_ok: "is_object_id milk_id" "isMongoId milk_id" "cast_oid milk_id = Some 171"
proof -
  show o: "is_object_id milk_id"
    by (simp add: is_object_id_def milk_id_def is_hex_def is_digit_def)
  then show "isMongoId milk_id" by (rule object_id_isMongoId)
  show "cast_oid milk_id = Some 171"
    using o by (simp add: cast_oid_def) (simp add: milk_id_def hex_val_def is_digit_def)
qed

lemma milk_store_ok: "store_ok milk_store"
  by (simp add: store_ok_def milk_store_def milk_def)

lemma empty_store_ok: "store_ok empty_store"
  by (simp add: store_ok_def empty_store_def)

lemma shared_store_ok: "store_ok shared_store"
  by (simp add: store_ok_def shared_store_def milk_def eggs_def rent_def)

lemma auth_sample: "auth sample_verify (Some ''token-7'') = Inr 7"
  by (simp add: auth_def sample_verify_def)

lemma sample_literals:
  "int_syntax ''0''" "int_value ''0'' = 0"
  "int_syntax ''1''" "int_value ''1'' = 1"
  "int_syntax ''2''" "int_value ''2'' = 2"
  "int_syntax ''100''" "int_value ''100'' = 100"
  "int_syntax ''101''" "int_value ''101'' = 101"
  "int_syntax ''500''" "int_value ''500'' = 500"
  "int_syntax ''9007199254740993''" "int_value ''9007199254740993'' = 9007199254740993"
  "\<not> int_syntax ''ten''"
  by (simp_all add: int_syntax_def int_value_def strip_sign_def is_digit_def digits_val_def)

lemma double_of_sample: "double_of 9007199254740993 = Fin 9007199254740992"
proof -
  have "bitlen 9007199254740993 = 54" by (simp add: bitlen.simps)
  then show ?thesis by (simp add: double_of_def round_nat_def Let_def)
qed

lemma shared_matches:
  "filter (matches (list_filter 7 q)) (docs shared_store) =
     (case q ''completed'' of
        None \<Rightarrow> [milk, eggs]
      | Some c \<Rightarrow> if toLowerCase c = ''true'' then [eggs] else [milk])"
  by (simp add: list_filter_def matches_def shared_store_def milk_def eggs_def rent_def
      split: option.splits)

lemma shared_orders:
  "sort_key (field_key ''createdAt'') [milk, eggs] = [eggs, milk]"
  "sort_key (field_key ''createdAt'') [eggs, milk] = [eggs, milk]"
  "sort_key (field_key ''title'') [milk, eggs] = [milk, eggs]"
  "sort_key (field_key ''title'') [eggs, milk] = [milk, eggs]"
  by (simp_all add: field_key_def milk_def eggs_def)

lemma list_skip_exact:
  assumes "get_root_validation q = []"
    and "case q ''page'' of None \<Rightarrow> True | Some s \<Rightarrow> int_value s < 2 ^ 46"
  shows "list_page q = Fin (case q ''page'' of None \<Rightarrow> 1 | Some s \<Rightarrow> int_value s) \<and>
         list_limit q = Fin (case q ''limit'' of None \<Rightarrow> 10 | Some s \<Rightarrow> int_value s) \<and>
         num_mul (num_sub (list_page q) (Fin 1)) (list_limit q) =
           Fin (((case q ''page'' of None \<Rightarrow> 1 | Some s \<Rightarrow> int_value s) - 1) *
                (case q ''limit'' of None \<Rightarrow> 10 | Some s \<Rightarrow> int_value s)) \<and>
         1 \<le> (case q ''page'' of None \<Rightarrow> 1 | Some s \<Rightarrow> int_value s) \<and>
         1 \<le> (case q ''limit'' of None \<Rightarrow> 10 | Some s \<Rightarrow> int_value s) \<and>
         ((case q ''page'' of None \<Rightarrow> 1 | Some s \<Rightarrow> int_value s) - 1) *
           (case q ''limit'' of None \<Rightarrow> 10 | Some s \<Rightarrow> int_value s) < 2 ^ 53"
proof -
  define p where "p = (case q ''page'' of None \<Rightarrow> 1 | Some s \<Rightarrow> int_value s)"
  define l where "l = (case q ''limit'' of None \<Rightarrow> 10 | Some s \<Rightarrow> int_value s)"
  from assms have p: "1 \<le> p" "p < 2 ^ 46"
    by (auto simp: p_def get_root_validation_Nil split: option.splits)
  from assms(1) have l: "1 \<le> l" "l \<le> 100"
    by (auto simp: l_def get_root_validation_Nil split: option.splits)
  from p have "double_of p = Fin p" by (simp add: double_of_small)
  then have pg: "list_page q = Fin p"
    using list_page_accepted[OF assms(1)] by (simp add: p_def split: option.splits)
  have lim: "list_limit q = Fin l"
    using list_limit_accepted[OF assms(1)] by (simp add: l_def split: option.splits)
  from p have "double_of (p - 1) = Fin (p - 1)" by (simp add: double_of_small)
  then have sub: "num_sub (list_page q) (Fin 1) = Fin (p - 1)" by (simp add: pg)
  have n0: "0 \<le> (p - 1) * l" using p l by simp
  have "(p - 1) * l \<le> (p - 1) * 100" using p l by (intro mult_left_mono) simp_all
  also have "\<dots> < 2 ^ 46 * 100" using p by simp
  also have "\<dots> < (2::int) ^ 53" by simp
  finally have n1: "(p - 1) * l < 2 ^ 53" .
  from n0 n1 have "double_of ((p - 1) * l) = Fin ((p - 1) * l)"
    by (intro double_of_small) simp
  then have "num_mul (num_sub (list_page q) (Fin 1)) (list_limit q) = Fin ((p - 1) * l)"
    by (simp add: sub lim)
  with pg lim p l n1 show ?thesis
    unfolding p_def l_def by blast
qed

lemma router_get_root_default_sort:
  assumes "get_root_validation q = []" and "q ''sort'' = None"
    and "case q ''page'' of None \<Rightarrow> True | Some s \<Rightarrow> int_value s < 2 ^ 46"
  shows "(let p = (case q ''page'' of None \<Rightarrow> 1 | Some s \<Rightarrow> int_value s);
              l = (case q ''limit'' of None \<Rightarrow> 10 | Some s \<Rightarrow> int_value s);
              ms = filter (matches (list_filter uid q)) (docs st)
          in router_get_root uid q st =
               Inr (Tasks_meta
                     (take (nat l) (drop (nat ((p - 1) * l))
                        (rev (sort_key (field_key ''createdAt'') (rev ms)))))
                     \<lparr>m_total = length ms, m_page = Fin p, m_limit = Fin l,
                      m_pages = Fin ((int (length ms) + l - 1) div l)\<rparr>))"
proof -
  define p where "p = (case q ''page'' of None \<Rightarrow> 1 | Some s \<Rightarrow> int_value s)"
  define l where "l = (case q ''limit'' of None \<Rightarrow> 10 | Some s \<Rightarrow> int_value s)"
  define ms where "ms = filter (matches (list_filter uid q)) (docs st)"
  from list_skip_exact[OF assms(1,3)] have
    pg: "list_page q = Fin p" and lim: "list_limit q = Fin l"
    and sk: "num_mul (num_sub (list_page q) (Fin 1)) (list_limit q) = Fin ((p - 1) * l)"
    and p: "1 \<le> p" and l: "1 \<le> l" and b: "(p - 1) * l < 2 ^ 53"
    unfolding p_def l_def by blast+
  have "(2::int) ^ 53 \<le> 2 ^ 63" by (rule power_increasing) simp_all
  with b have b63: "\<not> 2 ^ 63 \<le> (p - 1) * l" by linarith
  have "0 \<le> (p - 1) * l" using p l by simp
  then have n0: "\<not> (p - 1) * l < 0" by linarith
  have "router_get_root uid q st =
               Inr (Tasks_meta
                     (take (nat l) (drop (nat ((p - 1) * l))
                        (rev (sort_key (field_key ''createdAt'') (rev ms)))))
                     \<lparr>m_total = length ms, m_page = Fin p, m_limit = Fin l,
                      m_pages = Fin ((int (length ms) + l - 1) div l)\<rparr>)"
    using assms(1,2) l b63 n0 sk[unfolded pg lim]
    by (simp add: router_get_root_def handleValidation_def Let_def Task_find_def
        Task_countDocuments_def list_filter_castable page_of_def sort_of_query_absent
        order_by_default Math_ceil_div_def pg lim ms_def del: num_sub.simps num_mul.simps)
  then show ?thesis
    by (simp add: Let_def p_def l_def ms_def)
qed

section \<open>Paging of the list route\<close>

text \<open>
  C6 (as amended). Of a list call whose query parameters each occur at most once, as a
  plain \<open>name=value\<close>:

  \<^item> it passes validation exactly when \<open>completed\<close>, if supplied, is \<open>true\<close> or \<open>false\<close>,
    \<open>page\<close>, if supplied, is an optionally signed string of decimal digits whose value is
    at least 1, and \<open>limit\<close>, if supplied, is such a string with a value from 1 to 100;
  \<^item> otherwise it is answered with the validation errors (400): a supplied page or limit
    that is no such integer, or is out of range, is reported and not clamped;
  \<^item> when it passes, the page applied is 1 if none is supplied and otherwise the double
    nearest to the supplied value, the limit is 10 if none is supplied and otherwise
    the supplied value, and a response that succeeds reports these two;
  \<^item> when it passes with no sort parameter and a page below \<open>2^46\<close>, it succeeds: with
    \<open>p\<close> the page and \<open>l\<close> the limit (the supplied values, or 1 and 10), it returns the
    caller's matching tasks, newest first, from position \<open>(p - 1) * l\<close> on and at most \<open>l\<close>
    of them, and reports their total, \<open>p\<close>, \<open>l\<close> and the number of pages.
\<close>

theorem list_paging:
  "(get_root_validation q = [] \<longleftrightarrow>
      (case q ''completed'' of None \<Rightarrow> True | Some s \<Rightarrow> s \<in> {''true'', ''false''}) \<and>
      (case q ''page'' of None \<Rightarrow> True | Some s \<Rightarrow> int_syntax s \<and> 1 \<le> int_value s) \<and>
      (case q ''limit'' of None \<Rightarrow> True
       | Some s \<Rightarrow> int_syntax s \<and> 1 \<le> int_value s \<and> int_value s \<le> 100)) \<and>
   (get_root_validation q \<noteq> [] \<longrightarrow>
      router_get_root uid q st = Inl (ValidationError (get_root_validation q))) \<and>
   (\<forall>s. q ''page'' = Some s \<and> \<not> (int_syntax s \<and> 1 \<le> int_value s) \<longrightarrow>
      (''page'', ''page must be >= 1'') \<in> set (get_root_validation q)) \<and>
   (\<forall>s. q ''limit'' = Some s \<and> \<not> (int_syntax s \<and> 1 \<le> int_value s \<and> int_value s \<le> 100) \<longrightarrow>
      (''limit'', ''limit must be between 1 and 100'') \<in> set (get_root_validation q)) \<and>
   (get_root_validation q = [] \<longrightarrow>
      list_page q = (case q ''page'' of None \<Rightarrow> Fin 1 | Some s \<Rightarrow> double_of (int_value s)) \<and>
      list_limit q = (case q ''limit'' of None \<Rightarrow> Fin 10 | Some s \<Rightarrow> Fin (int_value s)) \<and>
      (\<forall>r. router_get_root uid q st = Inr r \<longrightarrow>
         (\<exists>ts m. r = Tasks_meta ts m \<and> m_page m = list_page q \<and> m_limit m = list_limit q))) \<and>
   (get_root_validation q = [] \<and> q ''sort'' = None \<and>
    (case q ''page'' of None \<Rightarrow> True | Some s \<Rightarrow> int_value s < 2 ^ 46) \<longrightarrow>
      (let p = (case q ''page'' of None \<Rightarrow> 1 | Some s \<Rightarrow> int_value s);
           l = (case q ''limit'' of None \<Rightarrow> 10 | Some s \<Rightarrow> int_value s);
           ms = filter (matches (list_filter uid q)) (docs st)
       in router_get_root uid q st =
            Inr (Tasks_meta
                  (take (nat l) (drop (nat ((p - 1) * l))
                     (rev (sort_key (field_key ''createdAt'') (rev ms)))))
                  \<lparr>m_total = length ms, m_page = Fin p, m_limit = Fin l,
                   m_pages = Fin ((int (length ms) + l - 1) div l)\<rparr>)))"
proof (intro conjI impI allI)
  show "get_root_validation q = [] \<longleftrightarrow>
      (case q ''completed'' of None \<Rightarrow> True | Some s \<Rightarrow> s \<in> {''true'', ''false''}) \<and>
      (case q ''page'' of None \<Rightarrow> True | Some s \<Rightarrow> int_syntax s \<and> 1 \<le> int_value s) \<and>
      (case q ''limit'' of None \<Rightarrow> True
       | Some s \<Rightarrow> int_syntax s \<and> 1 \<le> int_value s \<and> int_value s \<le> 100)"
    by (rule get_root_validation_Nil)
next
  assume "get_root_validation q \<noteq> []"
  then show "router_get_root uid q st = Inl (ValidationError (get_root_validation q))"
    by (rule router_get_root_invalid)
next
  fix s
  assume "q ''page'' = Some s \<and> \<not> (int_syntax s \<and> 1 \<le> int_value s)"
  then show "(''page'', ''page must be >= 1'') \<in> set (get_root_validation q)"
    using page_error by blast
next
  fix s
  assume "q ''limit'' = Some s \<and> \<not> (int_syntax s \<and> 1 \<le> int_value s \<and> int_value s \<le> 100)"
  then show "(''limit'', ''limit must be between 1 and 100'') \<in> set (get_root_validation q)"
    using limit_error by blast
next
  assume "get_root_validation q = []"
  then show "list_page q = (case q ''page'' of None \<Rightarrow> Fin 1 | Some s \<Rightarrow> double_of (int_value s))"
    by (rule list_page_accepted)
next
  assume "get_root_validation q = []"
  then show "list_limit q = (case q ''limit'' of None \<Rightarrow> Fin 10 | Some s \<Rightarrow> Fin (int_value s))"
    by (rule list_limit_accepted)
next
  fix r
  assume "router_get_root uid q st = Inr r"
  from router_get_root_Inr[OF this]
  show "\<exists>ts m. r = Tasks_meta ts m \<and> m_page m = list_page q \<and> m_limit m = list_limit q"
    by auto
next
  assume a: "get_root_validation q = [] \<and> q ''sort'' = None \<and>
    (case q ''page'' of None \<Rightarrow> True | Some s \<Rightarrow> int_value s < 2 ^ 46)"
  then have 1: "get_root_validation q = []" and 2: "q ''sort'' = None"
    and 3: "case q ''page'' of None \<Rightarrow> True | Some s \<Rightarrow> int_value s < 2 ^ 46"
    by simp_all
  show "(let p = (case q ''page'' of None \<Rightarrow> 1 | Some s \<Rightarrow> int_value s);
           l = (case q ''limit'' of None \<Rightarrow> 10 | Some s \<Rightarrow> int_value s);
           ms = filter (matches (list_filter uid q)) (docs st)
       in router_get_root uid q st =
            Inr (Tasks_meta
                  (take (nat l) (drop (nat ((p - 1) * l))
                     (rev (sort_key (field_key ''createdAt'') (rev ms)))))
                  \<lparr>m_total = length ms, m_page = Fin p, m_limit = Fin l,
                   m_pages = Fin ((int (length ms) + l - 1) div l)\<rparr>))"
    by (rule router_get_root_default_sort[OF 1 2 3])
qed

theorem list_paging_witness:
  "get_root_validation [''page'' \<mapsto> ''2'', ''limit'' \<mapsto> ''1''] = [] \<and>
   router_get_root 7 [''page'' \<mapsto> ''2'', ''limit'' \<mapsto> ''1''] shared_store =
     Inr (Tasks_meta [eggs] \<lparr>m_total = 2, m_page = Fin 2, m_limit = Fin 1, m_pages = Fin 2\<rparr>) \<and>
   router_get_root 7 Map.empty shared_store =
     Inr (Tasks_meta [milk, eggs] \<lparr>m_total = 2, m_page = Fin 1, m_limit = Fin 10, m_pages = Fin 1\<rparr>) \<and>
   get_root_validation [''limit'' \<mapsto> ''100''] = [] \<and>
   list_limit [''limit'' \<mapsto> ''100''] = Fin 100 \<and>
   router_get_root 7 [''limit'' \<mapsto> ''101''] shared_store =
     Inl (ValidationError [(''limit'', ''limit must be between 1 and 100'')]) \<and>
   router_get_root 7 [''limit'' \<mapsto> ''0''] shared_store =
     Inl (ValidationError [(''limit'', ''limit must be between 1 and 100'')]) \<and>
   router_get_root 7 [''page'' \<mapsto> ''0''] shared_store =
     Inl (ValidationError [(''page'', ''page must be >= 1'')]) \<and>
   router_get_root 7 [''page'' \<mapsto> ''ten''] shared_store =
     Inl (ValidationError [(''page'', ''page must be >= 1'')]) \<and>
   get_root_validation [''page'' \<mapsto> ''9007199254740993''] = [] \<and>
   list_page [''page'' \<mapsto> ''9007199254740993''] = Fin 9007199254740992"
proof -
  have v: "get_root_validation [''limit'' \<mapsto> ''101''] =
             [(''limit'', ''limit must be between 1 and 100'')]"
    "get_root_validation [''limit'' \<mapsto> ''0''] =
             [(''limit'', ''limit must be between 1 and 100'')]"
    "get_root_validation [''page'' \<mapsto> ''0''] = [(''page'', ''page must be >= 1'')]"
    "get_root_validation [''page'' \<mapsto> ''ten''] = [(''page'', ''page must be >= 1'')]"
    by (simp_all add: get_root_validation_def optional_def check_def isInt_page isInt_limit
        sample_literals)
  show ?thesis
    using list_paging [of "[''page'' \<mapsto> ''2'', ''limit'' \<mapsto> ''1'']" 7 shared_store]
      list_paging [of Map.empty 7 shared_store]
      list_paging [of "[''limit'' \<mapsto> ''100'']" 7 shared_store]
      list_paging [of "[''limit'' \<mapsto> ''101'']" 7 shared_store]
      list_paging [of "[''limit'' \<mapsto> ''0'']" 7 shared_store]
      list_paging [of "[''page'' \<mapsto> ''0'']" 7 shared_store]
      list_paging [of "[''page'' \<mapsto> ''ten'']" 7 shared_store]
      list_paging [of "[''page'' \<mapsto> ''9007199254740993'']" 7 shared_store]
    by (simp add: v sample_literals shared_matches double_of_sample double_of_small Let_def
        field_key_def milk_def eggs_def)
qed

text \<open>
  C6 (as stated) fails: a limit of 500 is not clamped to 100, the call is answered 400.
\<close>

theorem limit_not_clamped_counterexample:
  "router_get_root 7 [''limit'' \<mapsto> ''500''] empty_store =
     Inl (ValidationError [(''limit'', ''limit must be between 1 and 100'')]) \<and>
   status (router_get_root 7 [''limit'' \<mapsto> ''500''] empty_store) = 400"
  by (simp add: router_get_root_def handleValidation_def get_root_validation_def optional_def
      check_def isInt_limit sample_literals)

section \<open>Tasks that are missing or owned by someone else\<close>

lemma blank_title_update:
  "put_id_validation milk_id [''title'' \<mapsto> JStr '' ''] =
     [(''title'', ''title must be a non-empty string'')]"
  by (simp add: put_id_validation_def id_validation_def milk_id_ok check_def optional_def
      title_chain_def isString_def check_each_def values_of_def trim_value_def trim_def
      is_space_def)

lemma completed_true_update: "put_id_validation milk_id [''completed'' \<mapsto> JBool True] = []"
  by (simp add: put_id_validation_Nil milk_id_ok isBoolean_def values_of_def)

text \<open>
  C3 (as amended). With an identifier of 24 hexadecimal digits that names no task owned
  by the caller (none at all, or one of another user), get and delete answer NotFound
  (404), and so does an update whose body passes validation and whose \<open>completed\<close> is not
  an array; an update whose body fails validation is answered with the validation
  errors (400) instead. The collection is left as it was.
\<close>

theorem not_owned_is_not_found:
  assumes "is_object_id i"
    and "\<not> (\<exists>t\<in>set (docs st). cast_oid i = Some (tid t) \<and> owner t = uid)"
  shows "router_get_id uid i st = Inl NotFound \<and>
         status (router_get_id uid i st) = 404 \<and>
         router_delete_id uid i st = (Inl NotFound, st) \<and>
         status (fst (router_delete_id uid i st)) = 404 \<and>
         (put_id_validation i b = [] \<and> (\<forall>xs. b ''completed'' \<noteq> Some (JArr xs)) \<longrightarrow>
            router_put_id uid i b st = (Inl NotFound, st) \<and>
            status (fst (router_put_id uid i b st)) = 404) \<and>
         (put_id_validation i b \<noteq> [] \<longrightarrow>
            router_put_id uid i b st = (Inl (ValidationError (put_id_validation i b)), st) \<and>
            status (fst (router_put_id uid i b st)) = 400)"
proof -
  from assms(2) have none: "find (matches (id_filter uid i)) (docs st) = None"
    by (simp add: find_id_filter_None)
  have g: "router_get_id uid i st = Inl NotFound"
    using assms(1) none by (simp add: router_get_id_valid)
  have d: "router_delete_id uid i st = (Inl NotFound, st)"
    using assms(1) none by (simp add: router_delete_id_valid)
  have p: "router_put_id uid i b st = (Inl NotFound, st)"
    if "put_id_validation i b = []" "\<forall>xs. b ''completed'' \<noteq> Some (JArr xs)"
    using router_put_id_valid[OF that(1) assms(1) that(2), of uid st] none by auto
  have e: "router_put_id uid i b st = (Inl (ValidationError (put_id_validation i b)), st)"
    if "put_id_validation i b \<noteq> []"
    using that by (rule router_put_id_invalid)
  show ?thesis
    using g d p e by simp
qed

theorem not_owned_is_not_found_witness:
  "is_object_id milk_id \<and>
   \<not> (\<exists>t\<in>set (docs milk_store). cast_oid milk_id = Some (tid t) \<and> owner t = 8) \<and>
   router_get_id 8 milk_id milk_store = Inl NotFound \<and>
   router_delete_id 8 milk_id milk_store = (Inl NotFound, milk_store) \<and>
   put_id_validation milk_id [''completed'' \<mapsto> JBool True] = [] \<and>
   router_put_id 8 milk_id [''completed'' \<mapsto> JBool True] milk_store = (Inl NotFound, milk_store) \<and>
   router_put_id 8 milk_id [''title'' \<mapsto> JStr '' ''] milk_store =
     (Inl (ValidationError [(''title'', ''title must be a non-empty string'')]), milk_store) \<and>
   \<not> (\<exists>t\<in>set (docs empty_store). cast_oid milk_id = Some (tid t) \<and> owner t = 7) \<and>
   router_get_id 7 milk_id empty_store = Inl NotFound \<and>
   router_delete_id 7 milk_id empty_store = (Inl NotFound, empty_store)"
proof -
  have h1: "is_object_id milk_id" by (rule milk_id_ok)
  have h2: "\<not> (\<exists>t\<in>set (docs milk_store). cast_oid milk_id = Some (tid t) \<and> owner t = 8)"
    by (simp add: milk_store_def milk_def)
  have h3: "\<not> (\<exists>t\<in>set (docs empty_store). cast_oid milk_id = Some (tid t) \<and> owner t = 7)"
    by (simp add: empty_store_def)
  show ?thesis
    using h1 h2 h3
      not_owned_is_not_found [OF h1 h2, of "[''completed'' \<mapsto> JBool True]"]
      not_owned_is_not_found [OF h1 h2, of "[''title'' \<mapsto> JStr '' '']"]
      not_owned_is_not_found [OF h1 h3]
    by (simp add: blank_title_update completed_true_update)
qed

text \<open>
  C3 (as stated) fails for update: with a well-formed identifier and no task at all, an
  update whose title is blank is answered 400, not 404.
\<close>

theorem update_not_owned_counterexample:
  "is_object_id milk_id \<and> isMongoId milk_id \<and> docs empty_store = [] \<and>
   router_put_id 7 milk_id [''title'' \<mapsto> JStr '' ''] empty_store =
     (Inl (ValidationError [(''title'', ''title must be a non-empty string'')]), empty_store) \<and>
   status (fst (router_put_id 7 milk_id [''title'' \<mapsto> JStr '' ''] empty_store)) = 400"
  by (simp add: milk_id_ok empty_store_def router_put_id_def handleValidation_def
      blank_title_update)

text \<open>
  Outside the amended statement: an identifier that passes \<^verbatim>\<open>isMongoId\<close> with a prefix
  \<open>0x\<close> is no ObjectId, and an array for \<open>completed\<close> is no boolean; the collection refuses
  both and the routes answer 500.
\<close>

lemma uncastable_requests:
  "isMongoId ''0x00000000000000000000ab''"
  "router_get_id 7 ''0x00000000000000000000ab'' milk_store = Inl InternalFailure"
  "router_delete_id 7 ''0x00000000000000000000ab'' milk_store = (Inl InternalFailure, milk_store)"
  "router_put_id 7 milk_id [''completed'' \<mapsto> JArr [JBool True]] milk_store =
     (Inl InternalFailure, milk_store)"
proof -
  show m: "isMongoId ''0x00000000000000000000ab''"
    by (simp add: isMongoId_def isHexadecimal_def is_hex_def is_digit_def)
  have n: "\<not> is_object_id ''0x00000000000000000000ab''"
    by (simp add: is_object_id_def is_hex_def is_digit_def)
  show "router_get_id 7 ''0x00000000000000000000ab'' milk_store = Inl InternalFailure"
    using m n by (rule router_get_id_uncastable)
  show "router_delete_id 7 ''0x00000000000000000000ab'' milk_store =
      (Inl InternalFailure, milk_store)"
    using m n by (rule router_delete_id_uncastable)
  have "put_id_validation milk_id [''completed'' \<mapsto> JArr [JBool True]] = []"
    by (simp add: put_id_validation_Nil milk_id_ok isBoolean_def values_of_def)
  then show "router_put_id 7 milk_id [''completed'' \<mapsto> JArr [JBool True]] milk_store =
     (Inl InternalFailure, milk_store)"
    by (rule router_put_id_array) simp
qed

section \<open>Create and update\<close>

text \<open>
  C4 (as amended). Create fails with a validation error exactly when the title is not a
  string, or is empty after trimming, or a description is supplied that is not a string.
  Otherwise it appends one new task to the collection: a fresh identifier, the trimmed
  title, the description (empty when none is given), completion flag false, the caller
  as owner and the server's time as creation time.
\<close>

theorem create_validates_then_persists:
  "(post_root_validation b \<noteq> [] \<longleftrightarrow>
      \<not> isString (b ''title'') \<or> trim (toString (b ''title'')) = [] \<or>
      (b ''description'' \<noteq> None \<and> \<not> isString (b ''description''))) \<and>
   router_post_root uid b now st =
     (if post_root_validation b \<noteq> [] then (Inl (ValidationError (post_root_validation b)), st)
      else (Inr (Task_created
                  \<lparr>tid = next_id st, title = trim (toString (b ''title'')),
                   description = toString (b ''description''), completed = False,
                   owner = uid, createdAt = now\<rparr>),
            st\<lparr>docs := docs st @
                   [\<lparr>tid = next_id st, title = trim (toString (b ''title'')),
                     description = toString (b ''description''), completed = False,
                     owner = uid, createdAt = now\<rparr>],
               next_id := Suc (next_id st)\<rparr>))"
proof -
  have "post_root_validation b = [] \<longleftrightarrow>
      isString (b ''title'') \<and> trim (toString (b ''title'')) \<noteq> [] \<and>
      (b ''description'' = None \<or> isString (b ''description''))"
    by (auto simp: post_root_validation_Nil isString_iff)
  then have a: "post_root_validation b \<noteq> [] \<longleftrightarrow>
      \<not> isString (b ''title'') \<or> trim (toString (b ''title'')) = [] \<or>
      (b ''description'' \<noteq> None \<and> \<not> isString (b ''description''))"
    by auto
  show ?thesis
    using a router_post_root_invalid[of b uid now st] router_post_root_valid[of b uid now st]
    by (cases "post_root_validation b = []") simp_all
qed

text \<open>
  C4 (as stated) fails: a title that is not empty after trimming, sent with a
  description that is a number, is answered with a validation error.
\<close>

theorem create_description_counterexample:
  "trim ''buy milk'' \<noteq> [] \<and>
   router_post_root 7 [''title'' \<mapsto> JStr ''buy milk'', ''description'' \<mapsto> JNum 5] 100 empty_store =
     (Inl (ValidationError [(''description'', ''description must be text'')]), empty_store)"
  by (simp add: router_post_root_def handleValidation_def post_root_validation_def
      title_chain_def optional_def check_def isString_def check_each_def values_of_def
      trim_value_def trim_def is_space_def)

text \<open>
  C5. A successful update changes, on the caller's task with that identifier, only the
  fields among title, description and completed that the request supplies (the title to
  its trimmed value, the flag to the boolean the value denotes); the fields it does not
  supply, the owner, the creation time and the identifier keep their values, and no
  other task changes.
\<close>

theorem update_changes_only_supplied_fields:
  assumes "store_ok st" and "router_put_id uid i b st = (Inr r, st')"
  shows "\<exists>k t t'. cast_oid i = Some k \<and> lookup st k = Some t \<and> owner t = uid \<and>
           r = Task_body t' \<and> lookup st' k = Some t' \<and>
           tid t' = tid t \<and> owner t' = owner t \<and> createdAt t' = createdAt t \<and>
           title t' = (case b ''title'' of None \<Rightarrow> title t | Some v \<Rightarrow> trim (toString (Some v))) \<and>
           description t' =
             (case b ''description'' of None \<Rightarrow> description t | Some v \<Rightarrow> toString (Some v)) \<and>
           (case b ''completed'' of
              None \<Rightarrow> completed t' = completed t
            | Some v \<Rightarrow> castBoolean v = Some (completed t')) \<and>
           (\<forall>j. j \<noteq> k \<longrightarrow> lookup st' j = lookup st j) \<and>
           next_id st' = next_id st \<and> length (docs st') = length (docs st)"
proof -
  from router_put_id_success[OF assms(2)] have valid: "put_id_validation i b = []"
    and oid: "is_object_id i" and scalar: "\<forall>xs. b ''completed'' \<noteq> Some (JArr xs)"
    by simp_all
  from oid obtain k where k: "cast_oid i = Some k" by (auto simp: cast_oid_def)
  from router_put_id_valid[OF valid oid scalar, of uid st] obtain c where
    co: "c_owner c = None"
    and ct: "c_title c = map_option (\<lambda>v. trim (toString (Some v))) (b ''title'')"
    and cd: "c_description c = map_option (\<lambda>v. toString (Some v)) (b ''description'')"
    and cc: "case b ''completed'' of
              None \<Rightarrow> c_completed c = None
            | Some v \<Rightarrow> c_completed c = castBoolean v \<and> castBoolean v \<noteq> None"
    and run: "router_put_id uid i b st =
             (case find (matches (id_filter uid i)) (docs st) of
                None \<Rightarrow> (Inl NotFound, st)
              | Some t \<Rightarrow>
                  (Inr (Task_body (apply_set c t)),
                   st\<lparr>docs := update_first (matches (id_filter uid i)) (apply_set c) (docs st)\<rparr>))"
    by blast
  from run assms(2) obtain t where
    f: "find (matches (id_filter uid i)) (docs st) = Some t"
    and r: "r = Task_body (apply_set c t)"
    and st': "st' = st\<lparr>docs := update_first (matches (id_filter uid i)) (apply_set c) (docs st)\<rparr>"
    by (auto split: option.splits)
  from f find_id_filter[OF assms(1) k, of uid] have lk: "lookup st k = Some t"
    and ow: "owner t = uid"
    by (auto split: option.splits if_splits)
  have d: "distinct (map tid (docs st))" using assms(1) by (simp add: store_ok_def)
  from find_in_set[OF f] k have tid_t: "tid t = k" by (simp add: matches_id_filter)
  have look': "\<And>j. lookup st' j = (if j = tid t then Some (apply_set c t) else lookup st j)"
    unfolding lookup_def st' using lookup_update_first[OF d _ f, of "apply_set c"] by simp
  have t1: "title (apply_set c t) =
      (case b ''title'' of None \<Rightarrow> title t | Some v \<Rightarrow> trim (toString (Some v)))"
    using ct by (simp add: apply_set_def split: option.splits)
  have t2: "description (apply_set c t) =
      (case b ''description'' of None \<Rightarrow> description t | Some v \<Rightarrow> toString (Some v))"
    using cd by (simp add: apply_set_def split: option.splits)
  have t3: "case b ''completed'' of
              None \<Rightarrow> completed (apply_set c t) = completed t
            | Some v \<Rightarrow> castBoolean v = Some (completed (apply_set c t))"
    using cc by (auto simp: apply_set_def split: option.splits)
  have "map tid (docs st') = map tid (docs st)"
    unfolding st' by (simp add: map_update_first)
  then have len: "length (docs st') = length (docs st)"
    by (rule map_eq_imp_length_eq)
  show ?thesis
  proof (rule exI[of _ k], rule exI[of _ t], rule exI[of _ "apply_set c t"], intro conjI)
    show "cast_oid i = Some k" by (rule k)
    show "lookup st k = Some t" by (rule lk)
    show "owner t = uid" by (rule ow)
    show "r = Task_body (apply_set c t)" by (rule r)
    show "lookup st' k = Some (apply_set c t)" using look' tid_t by simp
    show "tid (apply_set c t) = tid t" by simp
    show "owner (apply_set c t) = owner t" using co by (rule owner_apply_set)
    show "createdAt (apply_set c t) = createdAt t" by simp
    show "title (apply_set c t) =
      (case b ''title'' of None \<Rightarrow> title t | Some v \<Rightarrow> trim (toString (Some v)))" by (rule t1)
    show "description (apply_set c t) =
      (case b ''description'' of None \<Rightarrow> description t | Some v \<Rightarrow> toString (Some v))" by (rule t2)
    show "case b ''completed'' of
              None \<Rightarrow> completed (apply_set c t) = completed t
            | Some v \<Rightarrow> castBoolean v = Some (completed (apply_set c t))" by (rule t3)
    show "\<forall>j. j \<noteq> k \<longrightarrow> lookup st' j = lookup st j" using look' tid_t by simp
    show "next_id st' = next_id st" by (simp add: st')
    show "length (docs st') = length (docs st)" by (rule len)
  qed
qed

theorem create_validates_then_persists_witness:
  "post_root_validation [''title'' \<mapsto> JStr '' buy milk ''] = [] \<and>
   router_post_root 7 [''title'' \<mapsto> JStr '' buy milk ''] 100 empty_store =
     (Inr (Task_created
            \<lparr>tid = 0, title = ''buy milk'', description = [], completed = False,
             owner = 7, createdAt = 100\<rparr>),
      \<lparr>docs = [\<lparr>tid = 0, title = ''buy milk'', description = [], completed = False,
                owner = 7, createdAt = 100\<rparr>],
       next_id = 1\<rparr>) \<and>
   post_root_validation [''title'' \<mapsto> JStr '' ''] \<noteq> [] \<and>
   router_post_root 7 [''title'' \<mapsto> JStr '' ''] 100 empty_store =
     (Inl (ValidationError [(''title'', ''title is required'')]), empty_store)"
proof -
  have v1: "post_root_validation [''title'' \<mapsto> JStr '' buy milk ''] = []"
    by (simp add: post_root_validation_def title_chain_def optional_def check_def isString_def
        check_each_def values_of_def trim_value_def trim_def is_space_def)
  have v2: "post_root_validation [''title'' \<mapsto> JStr '' ''] = [(''title'', ''title is required'')]"
    by (simp add: post_root_validation_def title_chain_def optional_def check_def isString_def
        check_each_def values_of_def trim_value_def trim_def is_space_def)
  have t: "trim '' buy milk '' = ''buy milk''"
    by (simp add: trim_def is_space_def)
  show ?thesis
    using create_validates_then_persists [of "[''title'' \<mapsto> JStr '' buy milk '']" 7 100 empty_store]
      create_validates_then_persists [of "[''title'' \<mapsto> JStr '' '']" 7 100 empty_store]
    unfolding v1 v2 by (simp add: t empty_store_def)
qed

theorem update_changes_only_supplied_fields_witness:
  "store_ok milk_store \<and>
   router_put_id 7 milk_id [''title'' \<mapsto> JStr '' oat milk '', ''completed'' \<mapsto> JStr ''1''] milk_store =
     (Inr (Task_body (milk\<lparr>title := ''oat milk'', completed := True\<rparr>)),
      milk_store\<lparr>docs := [milk\<lparr>title := ''oat milk'', completed := True\<rparr>]\<rparr>) \<and>
   (\<exists>k t t'. cast_oid milk_id = Some k \<and> lookup milk_store k = Some t \<and> owner t = 7 \<and>
           Task_body (milk\<lparr>title := ''oat milk'', completed := True\<rparr>) = Task_body t' \<and>
           lookup (milk_store\<lparr>docs := [milk\<lparr>title := ''oat milk'', completed := True\<rparr>]\<rparr>) k =
             Some t' \<and>
           tid t' = tid t \<and> owner t' = owner t \<and> createdAt t' = createdAt t \<and>
           title t' = ''oat milk'' \<and> description t' = description t \<and>
           castBoolean (JStr ''1'') = Some (completed t'))"
proof -
  have h1: "store_ok milk_store" by (rule milk_store_ok)
  have v: "put_id_validation milk_id
      [''title'' \<mapsto> JStr '' oat milk '', ''completed'' \<mapsto> JStr ''1''] = []"
    by (simp add: put_id_validation_Nil milk_id_ok isBoolean_def values_of_def trim_def
        is_space_def)
  have c: "cast_update (put_updates (sanitize_title_optional
        [''title'' \<mapsto> JStr '' oat milk '', ''completed'' \<mapsto> JStr ''1''])) =
      Some \<lparr>c_title = Some ''oat milk'', c_description = None, c_completed = Some True,
            c_owner = None\<rparr>"
    by (simp add: cast_update_def put_updates_def restrict_map_def sanitize_title_optional_def
        sanitize_title_def cast_path_def castString_def castBoolean_def trim_value_def trim_def
        is_space_def)
  have h2: "router_put_id 7 milk_id
      [''title'' \<mapsto> JStr '' oat milk '', ''completed'' \<mapsto> JStr ''1''] milk_store =
     (Inr (Task_body (milk\<lparr>title := ''oat milk'', completed := True\<rparr>)),
      milk_store\<lparr>docs := [milk\<lparr>title := ''oat milk'', completed := True\<rparr>]\<rparr>)"
    by (simp add: router_put_id_def handleValidation_def v Task_findOneAndUpdate_def c
        id_filter_castable matches_id_filter_fun[OF milk_id_ok(3)] milk_id_ok milk_store_def
        milk_def apply_set_def)
  have t: "trim '' oat milk '' = ''oat milk''"
    by (simp add: trim_def is_space_def)
  show ?thesis
    using h1 h2 update_changes_only_supplied_fields [OF h1 h2]
    by (simp add: t, blast)
qed

section \<open>Repeating a request\<close>

lemma completed_only_update:
  assumes "c_title c = None" "c_description c = None" "c_completed c = Some True" "c_owner c = None"
  shows "apply_set c x = x\<lparr>completed := True\<rparr>"
  using assms by (simp add: apply_set_def)

lemma completed_true_validation:
  "isMongoId i \<Longrightarrow> put_id_validation i [''completed'' \<mapsto> JBool True] = []"
  by (simp add: put_id_validation_Nil isBoolean_def values_of_def)

lemma router_put_id_completed_true:
  assumes "is_object_id i"
  shows "router_put_id uid i [''completed'' \<mapsto> JBool True] st =
           (case find (matches (id_filter uid i)) (docs st) of
              None \<Rightarrow> (Inl NotFound, st)
            | Some t \<Rightarrow>
                (Inr (Task_body (t\<lparr>completed := True\<rparr>)),
                 st\<lparr>docs := update_first (matches (id_filter uid i))
                               (\<lambda>x. x\<lparr>completed := True\<rparr>) (docs st)\<rparr>))"
proof -
  let ?b = "[''completed'' \<mapsto> JBool True]"
  have scalar: "\<forall>xs. ?b ''completed'' \<noteq> Some (JArr xs)" by simp
  from router_put_id_valid[OF completed_true_validation[OF object_id_isMongoId[OF assms]] assms scalar,
      of uid st]
  obtain c where
    c0: "c_owner c = None"
      "c_title c = map_option (\<lambda>v. trim (toString (Some v))) (?b ''title'')"
      "c_description c = map_option (\<lambda>v. toString (Some v)) (?b ''description'')"
      "case ?b ''completed'' of
              None \<Rightarrow> c_completed c = None
            | Some v \<Rightarrow> c_completed c = castBoolean v \<and> castBoolean v \<noteq> None"
    and run: "router_put_id uid i ?b st =
             (case find (matches (id_filter uid i)) (docs st) of
                None \<Rightarrow> (Inl NotFound, st)
              | Some t \<Rightarrow>
                  (Inr (Task_body (apply_set c t)),
                   st\<lparr>docs := update_first (matches (id_filter uid i)) (apply_set c) (docs st)\<rparr>))"
    by blast
  from c0 have c: "c_owner c = None" "c_title c = None" "c_description c = None"
    "c_completed c = Some True"
    by (simp_all add: castBoolean_def)
  have eq: "apply_set c = (\<lambda>x. x\<lparr>completed := True\<rparr>)"
    using c by (intro ext completed_only_update)
  show ?thesis unfolding run eq by (simp cong: option.case_cong)
qed

text \<open>
  C7. For a task the caller owns, an update with \<^verbatim>\<open>completed: true\<close> succeeds and leaves the
  task completed; sending the same update again succeeds too, returns the same task and
  leaves the collection as the first update left it.
\<close>

theorem complete_twice_idempotent:
  assumes "store_ok st" and "t \<in> set (docs st)" and "owner t = uid"
    and "isMongoId i" and "cast_oid i = Some (tid t)"
  shows "\<exists>t1 st1.
           router_put_id uid i [''completed'' \<mapsto> JBool True] st = (Inr (Task_body t1), st1) \<and>
           t1 = t\<lparr>completed := True\<rparr> \<and> completed t1 \<and> lookup st1 (tid t) = Some t1 \<and>
           router_put_id uid i [''completed'' \<mapsto> JBool True] st1 = (Inr (Task_body t1), st1)"
proof -
  let ?P = "matches (id_filter uid i)"
  let ?g = "\<lambda>x. x\<lparr>completed := True\<rparr>"
  let ?st1 = "st\<lparr>docs := update_first ?P ?g (docs st)\<rparr>"
  have d: "distinct (map tid (docs st))" using assms(1) by (simp add: store_ok_def)
  have oid: "is_object_id i"
    using assms(5) cast_oid_Some_iff[of i] by blast
  have "lookup st (tid t) = Some t"
    using find_by_tid_unique[OF d assms(2)] by (simp add: lookup_def)
  with find_id_filter[OF assms(1,5), of uid] assms(3)
  have f: "find ?P (docs st) = Some t" by simp
  have first: "router_put_id uid i [''completed'' \<mapsto> JBool True] st = (Inr (Task_body (?g t)), ?st1)"
    using router_put_id_completed_true[OF oid, of uid st] f by simp
  have Pg: "\<And>x. ?P x \<Longrightarrow> ?P (?g x)" by (simp add: matches_id_filter)
  from find_in_set[OF f] have "?P t" by simp
  then have f1: "find ?P (docs ?st1) = Some (?g t)"
    using find_update_first[OF f, of ?g] Pg by simp
  have same: "update_first ?P ?g (docs ?st1) = docs ?st1"
    using update_first_twice[of ?P ?g "docs st"] Pg by simp
  have second: "router_put_id uid i [''completed'' \<mapsto> JBool True] ?st1 = (Inr (Task_body (?g t)), ?st1)"
    using router_put_id_completed_true[OF oid, of uid ?st1] f1 same by simp
  have look: "lookup ?st1 (tid t) = Some (?g t)"
    unfolding lookup_def using lookup_update_first[OF d _ f, of ?g "tid t"] by simp
  show ?thesis
    using first second look by simp
qed

theorem complete_twice_idempotent_witness:
  "store_ok milk_store \<and> milk \<in> set (docs milk_store) \<and> owner milk = 7 \<and>
   isMongoId milk_id \<and> cast_oid milk_id = Some (tid milk) \<and>
   (\<exists>t1 st1.
      router_put_id 7 milk_id [''completed'' \<mapsto> JBool True] milk_store = (Inr (Task_body t1), st1) \<and>
      t1 = milk\<lparr>completed := True\<rparr> \<and> completed t1 \<and> lookup st1 (tid milk) = Some t1 \<and>
      router_put_id 7 milk_id [''completed'' \<mapsto> JBool True] st1 = (Inr (Task_body t1), st1))"
proof -
  have h1: "store_ok milk_store" by (rule milk_store_ok)
  have h2: "milk \<in> set (docs milk_store)" by (simp add: milk_store_def)
  have h3: "owner milk = 7" by (simp add: milk_def)
  have h4: "isMongoId milk_id" by (rule milk_id_ok)
  have h5: "cast_oid milk_id = Some (tid milk)" by (simp add: milk_id_ok milk_def)
  show ?thesis
    using h1 h2 h3 h4 h5 complete_twice_idempotent [OF h1 h2 h3 h4 h5]
    by blast
qed

text \<open>
  C8. For every owner and every title and description that pass validation, two create
  calls with the same body both succeed and add two tasks with different identifiers,
  both in the collection afterwards, with the same title, description and owner.
\<close>

theorem create_twice_two_records:
  assumes "post_root_validation b = []"
  shows "\<exists>t1 st1 t2 st2.
           router_post_root uid b now1 st = (Inr (Task_created t1), st1) \<and>
           router_post_root uid b now2 st1 = (Inr (Task_created t2), st2) \<and>
           tid t1 \<noteq> tid t2 \<and> t1 \<noteq> t2 \<and>
           t1 \<in> set (docs st2) \<and> t2 \<in> set (docs st2) \<and>
           docs st2 = docs st @ [t1, t2] \<and>
           owner t1 = uid \<and> owner t2 = uid \<and>
           title t1 = title t2 \<and> description t1 = description t2"
proof -
  let ?t1 = "\<lparr>tid = next_id st, title = trim (toString (b ''title'')),
              description = toString (b ''description''), completed = False,
              owner = uid, createdAt = now1\<rparr>"
  let ?st1 = "st\<lparr>docs := docs st @ [?t1], next_id := Suc (next_id st)\<rparr>"
  let ?t2 = "\<lparr>tid = next_id ?st1, title = trim (toString (b ''title'')),
              description = toString (b ''description''), completed = False,
              owner = uid, createdAt = now2\<rparr>"
  let ?st2 = "?st1\<lparr>docs := docs ?st1 @ [?t2], next_id := Suc (next_id ?st1)\<rparr>"
  have a: "router_post_root uid b now1 st = (Inr (Task_created ?t1), ?st1)"
    by (rule router_post_root_valid[OF assms])
  have b: "router_post_root uid b now2 ?st1 = (Inr (Task_created ?t2), ?st2)"
    by (rule router_post_root_valid[OF assms])
  have c: "tid ?t1 \<noteq> tid ?t2" by simp
  then have c': "?t1 \<noteq> ?t2" by auto
  have e: "docs ?st2 = docs st @ [?t1, ?t2]" by simp
  show ?thesis
    apply (rule exI[of _ ?t1], rule exI[of _ ?st1], rule exI[of _ ?t2], rule exI[of _ ?st2])
    using a b c c' e by simp
qed

theorem create_twice_two_records_witness:
  "post_root_validation [''title'' \<mapsto> JStr ''buy milk''] = [] \<and>
   (\<exists>t1 st1 t2 st2.
      router_post_root 7 [''title'' \<mapsto> JStr ''buy milk''] 100 empty_store = (Inr (Task_created t1), st1) \<and>
      router_post_root 7 [''title'' \<mapsto> JStr ''buy milk''] 101 st1 = (Inr (Task_created t2), st2) \<and>
      tid t1 \<noteq> tid t2 \<and> t1 \<noteq> t2 \<and>
      t1 \<in> set (docs st2) \<and> t2 \<in> set (docs st2) \<and>
      docs st2 = docs empty_store @ [t1, t2] \<and>
      owner t1 = 7 \<and> owner t2 = 7 \<and>
      title t1 = title t2 \<and> description t1 = description t2)"
proof -
  have h: "post_root_validation [''title'' \<mapsto> JStr ''buy milk''] = []"
    by (simp add: post_root_validation_Nil trim_def is_space_def)
  show ?thesis
    using h create_twice_two_records [OF h, of 7 100 empty_store 101]
    by blast
qed

section \<open>The list route\<close>

lemma order_by_set:
  "order_by srt ms = Some xs \<Longrightarrow> set xs = set ms \<and> length xs = length ms"
  by (auto simp: order_by_def split: option.splits if_splits)

lemma page_of_take:
  "page_of skip lim xs = Some ts \<Longrightarrow>
     \<exists>k l. skip = Fin k \<and> lim = Fin l \<and> 0 \<le> k \<and> 1 \<le> l \<and> ts = take (nat l) (drop (nat k) xs)"
  by (auto simp: page_of_def split: number.splits if_splits)

lemma set_take_drop: "set (take l (drop k xs)) \<subseteq> set xs"
  using set_take_subset[of l "drop k xs"] set_drop_subset[of k xs] by blast

lemma Task_find_Some:
  assumes "Task_find flt srt skip lim st = Some ts"
  shows "\<exists>xs k l. order_by srt (filter (matches flt) (docs st)) = Some xs \<and>
           skip = Fin k \<and> lim = Fin l \<and> 0 \<le> k \<and> 1 \<le> l \<and> ts = take (nat l) (drop (nat k) xs)"
proof -
  from assms obtain xs where o: "order_by srt (filter (matches flt) (docs st)) = Some xs"
    and p: "page_of skip lim xs = Some ts"
    by (auto simp: Task_find_def split: if_splits Option.bind_splits)
  from page_of_take[OF p] o show ?thesis by blast
qed

lemma set_Task_find:
  assumes "Task_find flt srt skip lim st = Some ts"
  shows "set ts \<subseteq> {t \<in> set (docs st). matches flt t}"
proof -
  from Task_find_Some[OF assms] obtain xs k l where
    o: "order_by srt (filter (matches flt) (docs st)) = Some xs"
    and ts: "ts = take (nat l) (drop (nat k) xs)" by blast
  from order_by_set[OF o] have "set xs = set (filter (matches flt) (docs st))" by simp
  with set_take_drop[of "nat l" "nat k" xs] ts show ?thesis by auto
qed

lemma length_Task_find:
  assumes "Task_find flt srt skip (Fin l) st = Some ts"
  shows "int (length ts) \<le> l"
proof -
  from Task_find_Some[OF assms] obtain xs k where
    l: "1 \<le> l" and ts: "ts = take (nat l) (drop (nat k) xs)" by auto
  have "length ts \<le> nat l" by (simp add: ts)
  with l show ?thesis by linarith
qed

lemma tasks_router_list:
  assumes "route req = GET_tasks" "tasks_router verify now req st = (Inr r, st')"
  shows "\<exists>uid. auth verify (bearer req) = Inr uid \<and> router_get_root uid (req_query req) st = Inr r"
  using assms by (auto simp: tasks_router_def split: sum.splits)

lemma list_runs:
  "router_get_root 7 [''sort'' \<mapsto> ''title:asc''] shared_store =
     Inr (Tasks_meta [milk, eggs] \<lparr>m_total = 2, m_page = Fin 1, m_limit = Fin 10, m_pages = Fin 1\<rparr>)"
  "router_get_root 7 [''sort'' \<mapsto> ''title:ASC''] shared_store =
     Inr (Tasks_meta [eggs, milk] \<lparr>m_total = 2, m_page = Fin 1, m_limit = Fin 10, m_pages = Fin 1\<rparr>)"
  "router_get_root 7 [''sort'' \<mapsto> ''createdAt:asc''] shared_store =
     Inr (Tasks_meta [eggs, milk] \<lparr>m_total = 2, m_page = Fin 1, m_limit = Fin 10, m_pages = Fin 1\<rparr>)"
  "router_get_root 7 [''sort'' \<mapsto> ''createdAt''] shared_store =
     Inr (Tasks_meta [milk, eggs] \<lparr>m_total = 2, m_page = Fin 1, m_limit = Fin 10, m_pages = Fin 1\<rparr>)"
  "router_get_root 7 [''limit'' \<mapsto> ''1''] shared_store =
     Inr (Tasks_meta [milk] \<lparr>m_total = 2, m_page = Fin 1, m_limit = Fin 1, m_pages = Fin 2\<rparr>)"
  by (simp_all add: router_get_root_def handleValidation_def get_root_validation_def optional_def
      check_def isInt_limit sample_literals list_page_def list_limit_def or_default_def
      parseInt_defaults parseInt_literal double_of_small Math_max_def Math_min_def
      sort_of_query_def Task_find_def Task_countDocuments_def list_filter_castable
      shared_matches order_by_def valid_path_def page_of_def Math_ceil_div_def field_key_def
      milk_def eggs_def Let_def)

text \<open>
  C1. Every list call that passes token verification and succeeds returns only tasks of
  the collection whose owner is the verified identity, and at most as many as the
  effective limit (the limit the route computes and reports, itself at most 100).
\<close>

theorem list_returns_own_tasks_within_limit:
  assumes "route req = GET_tasks" and "tasks_router verify now req st = (Inr r, st')"
  shows "\<exists>uid ts m l. auth verify (bearer req) = Inr uid \<and> r = Tasks_meta ts m \<and>
           (\<forall>t\<in>set ts. owner t = uid \<and> t \<in> set (docs st)) \<and>
           list_limit (req_query req) = Fin l \<and> m_limit m = Fin l \<and>
           int (length ts) \<le> l \<and> l \<le> 100"
proof -
  from tasks_router_list[OF assms] obtain uid where
    a: "auth verify (bearer req) = Inr uid"
    and g: "router_get_root uid (req_query req) st = Inr r" by blast
  let ?q = "req_query req"
  from router_get_root_Inr[OF g] obtain ts m where
    v: "get_root_validation ?q = []"
    and f: "Task_find (list_filter uid ?q) (sort_of_query (?q ''sort''))
              (num_mul (num_sub (list_page ?q) (Fin 1)) (list_limit ?q)) (list_limit ?q) st = Some ts"
    and r: "r = Tasks_meta ts m" and m: "m_limit m = list_limit ?q"
    by auto
  from list_limit_range[OF v] obtain l where l: "list_limit ?q = Fin l" "1 \<le> l" "l \<le> 100"
    by blast
  have own: "\<forall>t\<in>set ts. owner t = uid \<and> t \<in> set (docs st)"
    using set_Task_find[OF f] matches_list_filter[of uid ?q] by blast
  have len: "int (length ts) \<le> l"
    using f unfolding l(1) by (rule length_Task_find)
  show ?thesis
    apply (rule exI[of _ uid], rule exI[of _ ts], rule exI[of _ m], rule exI[of _ l])
    using a r own l len m by simp
qed

theorem list_returns_own_tasks_within_limit_witness:
  "route \<lparr>route = GET_tasks, bearer = Some ''token-7'', req_query = [''limit'' \<mapsto> ''1''],
          req_body = Map.empty\<rparr> = GET_tasks \<and>
   tasks_router sample_verify 0
     \<lparr>route = GET_tasks, bearer = Some ''token-7'', req_query = [''limit'' \<mapsto> ''1''],
      req_body = Map.empty\<rparr> shared_store =
     (Inr (Tasks_meta [milk] \<lparr>m_total = 2, m_page = Fin 1, m_limit = Fin 1, m_pages = Fin 2\<rparr>),
      shared_store) \<and>
   (\<exists>uid ts m l. auth sample_verify (Some ''token-7'') = Inr uid \<and>
      Tasks_meta [milk] \<lparr>m_total = 2, m_page = Fin 1, m_limit = Fin 1, m_pages = Fin 2\<rparr> =
        Tasks_meta ts m \<and>
      (\<forall>t\<in>set ts. owner t = uid \<and> t \<in> set (docs shared_store)) \<and>
      list_limit [''limit'' \<mapsto> ''1''] = Fin l \<and> m_limit m = Fin l \<and>
      int (length ts) \<le> l \<and> l \<le> 100)"
proof -
  let ?req = "\<lparr>route = GET_tasks, bearer = Some ''token-7'', req_query = [''limit'' \<mapsto> ''1''],
          req_body = Map.empty\<rparr>"
  have h1: "route ?req = GET_tasks" by simp
  have h2: "tasks_router sample_verify 0 ?req shared_store =
     (Inr (Tasks_meta [milk] \<lparr>m_total = 2, m_page = Fin 1, m_limit = Fin 1, m_pages = Fin 2\<rparr>),
      shared_store)"
    by (simp add: tasks_router_def auth_sample list_runs)
  show ?thesis
    using h1 h2 list_returns_own_tasks_within_limit [OF h1 h2]
    by simp
qed

subsection \<open>The sort parameter\<close>
















section \<open>Ownership\<close>

lemma owner_of_eq: "owner_of st i = map_option owner (lookup st i)"
  by (simp add: owner_of_def lookup_def)

lemma store_ok_update:
  assumes "store_ok st"
  shows "store_ok (st\<lparr>docs := update_first P (apply_set c) (docs st)\<rparr>)"
proof -
  have m: "map tid (update_first P (apply_set c) (docs st)) = map tid (docs st)"
    by (simp add: map_update_first)
  have img: "tid ` set (update_first P (apply_set c) (docs st)) = tid ` set (docs st)"
    using arg_cong[OF m, of set] by simp
  have bound: "list_all (\<lambda>t. tid t < next_id st) xs \<longleftrightarrow> (\<forall>i\<in>tid ` set xs. i < next_id st)" for xs
    by (auto simp: list_all_iff)
  show ?thesis
    using assms by (simp add: store_ok_def m bound img)
qed

lemma store_ok_remove1:
  assumes "store_ok st"
  shows "store_ok (st\<lparr>docs := remove1 t (docs st)\<rparr>)"
proof -
  have "set (remove1 t (docs st)) \<subseteq> set (docs st)" by (rule set_remove1_subset)
  with assms show ?thesis
    by (auto simp: store_ok_def list_all_iff distinct_tid_remove1)
qed

lemma store_ok_append:
  assumes "store_ok st" "tid t = next_id st"
  shows "store_ok (st\<lparr>docs := docs st @ [t], next_id := Suc (next_id st)\<rparr>)"
  using assms by (auto simp: store_ok_def list_all_iff)

lemma post_step:
  assumes "store_ok st" "router_post_root uid b now st = (res, st')"
  shows "store_ok st' \<and> (\<forall>t\<in>set (reply_tasks res). owner t = uid) \<and>
         (\<forall>i. owner_of st' i = owner_of st i \<or>
              (owner_of st i = None \<and> owner_of st' i = Some uid) \<or>
              (owner_of st i = Some uid \<and> owner_of st' i = None))"
proof (cases "post_root_validation b = []")
  case False
  with assms show ?thesis by (auto simp: router_post_root_invalid)
next
  case True
  let ?t = "\<lparr>tid = next_id st, title = trim (toString (b ''title'')),
              description = toString (b ''description''), completed = False,
              owner = uid, createdAt = now\<rparr>"
  from router_post_root_valid[OF True, of uid now st] assms(2)
  have res: "res = Inr (Task_created ?t)"
    and st': "st' = st\<lparr>docs := docs st @ [?t], next_id := Suc (next_id st)\<rparr>" by simp_all
  have ok: "store_ok st'" unfolding st' by (rule store_ok_append[OF assms(1)]) simp
  have look: "lookup st' i = (case lookup st i of Some x \<Rightarrow> Some x
                 | None \<Rightarrow> if next_id st = i then Some ?t else None)" for i
    unfolding st' lookup_def using lookup_append_fresh[of i "docs st" ?t] by simp
  have "owner_of st' i = owner_of st i \<or> (owner_of st i = None \<and> owner_of st' i = Some uid)" for i
    unfolding owner_of_eq look by (simp split: option.splits)
  then have step: "\<forall>i. owner_of st' i = owner_of st i \<or>
              (owner_of st i = None \<and> owner_of st' i = Some uid) \<or>
              (owner_of st i = Some uid \<and> owner_of st' i = None)"
    by blast
  show ?thesis using ok res step by simp
qed

lemma put_error_keeps: "router_put_id uid i b st = (Inl e, st') \<Longrightarrow> st' = st"
  by (auto simp: router_put_id_def Task_findOneAndUpdate_def
      split: option.splits if_splits prod.splits)

lemma put_step:
  assumes "store_ok st" "router_put_id uid i b st = (res, st')"
  shows "store_ok st' \<and> (\<forall>t\<in>set (reply_tasks res). owner t = uid) \<and>
         (\<forall>j. owner_of st' j = owner_of st j)"
proof (cases res)
  case (Inl e)
  with assms(2) put_error_keeps[of uid i b st e st'] have "st' = st" by simp
  with assms(1) Inl show ?thesis by simp
next
  case (Inr r)
  from router_put_id_success[OF assms(2)[unfolded Inr]] have valid: "put_id_validation i b = []"
    and oid: "is_object_id i" and scalar: "\<forall>xs. b ''completed'' \<noteq> Some (JArr xs)"
    by simp_all
  from router_put_id_valid[OF valid oid scalar, of uid st] obtain c where
    co: "c_owner c = None"
    and run: "router_put_id uid i b st =
             (case find (matches (id_filter uid i)) (docs st) of
                None \<Rightarrow> (Inl NotFound, st)
              | Some t \<Rightarrow>
                  (Inr (Task_body (apply_set c t)),
                   st\<lparr>docs := update_first (matches (id_filter uid i)) (apply_set c) (docs st)\<rparr>))"
    by blast
  show ?thesis
  proof (cases "find (matches (id_filter uid i)) (docs st)")
    case None
    with run assms show ?thesis by simp
  next
    case (Some t)
    with run assms(2) have res: "res = Inr (Task_body (apply_set c t))"
      and st': "st' = st\<lparr>docs := update_first (matches (id_filter uid i)) (apply_set c) (docs st)\<rparr>"
      by simp_all
    have ok: "store_ok st'" unfolding st' by (rule store_ok_update[OF assms(1)])
    from find_in_set[OF Some] have own: "owner t = uid" and tin: "t \<in> set (docs st)"
      by (simp_all add: matches_id_filter)
    have d: "distinct (map tid (docs st))" using assms(1) by (simp add: store_ok_def)
    have look: "lookup st' j = (if j = tid t then Some (apply_set c t) else lookup st j)" for j
      unfolding st' lookup_def using lookup_update_first[OF d _ Some, of "apply_set c" j] by simp
    have lt: "lookup st (tid t) = Some t"
      unfolding lookup_def by (rule find_by_tid_unique[OF d tin])
    have "owner_of st' j = owner_of st j" for j
      unfolding owner_of_eq look using lt by (simp add: owner_apply_set[OF co])
    with ok res own show ?thesis by (simp add: owner_apply_set[OF co])
  qed
qed

lemma delete_step:
  assumes "store_ok st" "router_delete_id uid i st = (res, st')"
  shows "store_ok st' \<and> (\<forall>t\<in>set (reply_tasks res). owner t = uid) \<and>
         (\<forall>j. owner_of st' j = owner_of st j \<or>
              (owner_of st j = None \<and> owner_of st' j = Some uid) \<or>
              (owner_of st j = Some uid \<and> owner_of st' j = None))"
proof (cases "is_object_id i")
  case False
  have "\<exists>e. router_delete_id uid i st = (Inl e, st)"
    using False router_delete_id_invalid[of i uid st] router_delete_id_uncastable[of i uid st]
    by (cases "isMongoId i") simp_all
  with assms show ?thesis by auto
next
  case True
  show ?thesis
  proof (cases "find (matches (id_filter uid i)) (docs st)")
    case None
    with router_delete_id_valid[OF True, of uid st] assms show ?thesis by simp
  next
    case (Some t)
    with router_delete_id_valid[OF True, of uid st] assms(2)
    have res: "res = Inr Task_deleted" and st': "st' = st\<lparr>docs := remove1 t (docs st)\<rparr>"
      by simp_all
    have ok: "store_ok st'" unfolding st' by (rule store_ok_remove1[OF assms(1)])
    from find_in_set[OF Some] have own: "owner t = uid" and tin: "t \<in> set (docs st)"
      by (simp_all add: matches_id_filter)
    have d: "distinct (map tid (docs st))" using assms(1) by (simp add: store_ok_def)
    have look: "lookup st' j = (if j = tid t then None else lookup st j)" for j
      unfolding st' lookup_def using lookup_remove1[OF d tin, of j] by simp
    have lt: "lookup st (tid t) = Some t"
      unfolding lookup_def by (rule find_by_tid_unique[OF d tin])
    have "owner_of st' j = owner_of st j \<or> (owner_of st j = Some uid \<and> owner_of st' j = None)" for j
      unfolding owner_of_eq look using lt own by simp
    then have step: "\<forall>j. owner_of st' j = owner_of st j \<or>
              (owner_of st j = None \<and> owner_of st' j = Some uid) \<or>
              (owner_of st j = Some uid \<and> owner_of st' j = None)"
      by blast
    show ?thesis using ok res step by simp
  qed
qed

lemma get_root_step: "\<forall>t\<in>set (reply_tasks (router_get_root uid q st)). owner t = uid"
proof (cases "router_get_root uid q st")
  case (Inl e)
  then show ?thesis by simp
next
  case (Inr r)
  from router_get_root_Inr[OF Inr] obtain found m where
    f: "Task_find (list_filter uid q) (sort_of_query (q ''sort''))
              (num_mul (num_sub (list_page q) (Fin 1)) (list_limit q)) (list_limit q) st = Some found"
    and r: "r = Tasks_meta found m"
    by blast
  with Inr show ?thesis
    using set_Task_find[OF f] matches_list_filter[of uid q]
    by auto
qed

lemma get_id_step: "\<forall>t\<in>set (reply_tasks (router_get_id uid i st)). owner t = uid"
proof -
  have "find (matches (id_filter uid i)) (docs st) = Some t \<Longrightarrow> owner t = uid" for t
    using find_in_set[of "matches (id_filter uid i)" "docs st" t] by (simp add: matches_id_filter)
  then show ?thesis
    by (auto simp: router_get_id_def Task_findOne_def split: option.splits if_splits)
qed

text \<open>
  C2. Whatever the route, the request body and the query hold, a request that fails token
  verification changes nothing, and one that passes it with identity \<open>uid\<close> shows the
  caller only tasks owned by \<open>uid\<close> and leaves the owner of every task as it was, except
  that a task it creates is owned by \<open>uid\<close> and a task it deletes was owned by \<open>uid\<close>.
  The filters of the store queries carry \<open>uid\<close> as owner. Unique identifiers are kept.
\<close>

theorem owner_comes_only_from_identity:
  assumes "store_ok st" and "tasks_router verify now req st = (res, st')"
  shows "store_ok st' \<and>
         (case auth verify (bearer req) of
            Inl e \<Rightarrow> res = Inl e \<and> st' = st
          | Inr uid \<Rightarrow>
              (\<forall>t\<in>set (reply_tasks res). owner t = uid) \<and>
              (\<forall>i. owner_of st' i = owner_of st i \<or>
                   (owner_of st i = None \<and> owner_of st' i = Some uid) \<or>
                   (owner_of st i = Some uid \<and> owner_of st' i = None))) \<and>
         f_owner (list_filter u q) = Some u \<and> f_owner (id_filter u i) = Some u"
proof -
  have filters: "f_owner (list_filter u q) = Some u \<and> f_owner (id_filter u i) = Some u"
    by (simp add: list_filter_def id_filter_def)
  show ?thesis
  proof (cases "auth verify (bearer req)")
    case (Inl e)
    with assms filters show ?thesis by (simp add: tasks_router_def)
  next
    case (Inr uid)
    have main: "store_ok st' \<and> (\<forall>t\<in>set (reply_tasks res). owner t = uid) \<and>
         (\<forall>i. owner_of st' i = owner_of st i \<or>
              (owner_of st i = None \<and> owner_of st' i = Some uid) \<or>
              (owner_of st i = Some uid \<and> owner_of st' i = None))"
    proof (cases "route req")
      case GET_tasks
      with Inr assms(2) have "res = router_get_root uid (req_query req) st" "st' = st"
        by (auto simp: tasks_router_def)
      with assms(1) get_root_step[of uid "req_query req" st] show ?thesis by simp
    next
      case POST_tasks
      with Inr assms(2) have "router_post_root uid (req_body req) now st = (res, st')"
        by (simp add: tasks_router_def)
      from post_step[OF assms(1) this] show ?thesis .
    next
      case (GET_task k)
      with Inr assms(2) have "res = router_get_id uid k st" "st' = st"
        by (auto simp: tasks_router_def)
      with assms(1) get_id_step[of uid k st] show ?thesis by simp
    next
      case (PUT_task k)
      with Inr assms(2) have "router_put_id uid k (req_body req) st = (res, st')"
        by (simp add: tasks_router_def)
      from put_step[OF assms(1) this] show ?thesis by simp
    next
      case (DELETE_task k)
      with Inr assms(2) have "router_delete_id uid k st = (res, st')"
        by (simp add: tasks_router_def)
      from delete_step[OF assms(1) this] show ?thesis .
    qed
    with Inr filters show ?thesis by simp
  qed
qed

theorem owner_comes_only_from_identity_witness:
  "store_ok shared_store \<and>
   tasks_router sample_verify 0
     \<lparr>route = PUT_task milk_id, bearer = Some ''token-7'', req_query = Map.empty,
      req_body = [''owner'' \<mapsto> JStr ''0000000000000000000000ad'', ''completed'' \<mapsto> JBool True]\<rparr>
     shared_store =
     (Inr (Task_body (milk\<lparr>completed := True\<rparr>)),
      shared_store\<lparr>docs := [milk\<lparr>completed := True\<rparr>, rent, eggs]\<rparr>) \<and>
   auth sample_verify (Some ''token-7'') = Inr 7 \<and>
   owner (milk\<lparr>completed := True\<rparr>) = 7 \<and>
   store_ok (shared_store\<lparr>docs := [milk\<lparr>completed := True\<rparr>, rent, eggs]\<rparr>) \<and>
   (\<forall>i. owner_of (shared_store\<lparr>docs := [milk\<lparr>completed := True\<rparr>, rent, eggs]\<rparr>) i =
          owner_of shared_store i \<or>
        (owner_of shared_store i = None \<and>
         owner_of (shared_store\<lparr>docs := [milk\<lparr>completed := True\<rparr>, rent, eggs]\<rparr>) i = Some 7) \<or>
        (owner_of shared_store i = Some 7 \<and>
         owner_of (shared_store\<lparr>docs := [milk\<lparr>completed := True\<rparr>, rent, eggs]\<rparr>) i = None))"
proof -
  have h1: "store_ok shared_store" by (rule shared_store_ok)
  have v: "put_id_validation milk_id
      [''owner'' \<mapsto> JStr ''0000000000000000000000ad'', ''completed'' \<mapsto> JBool True] = []"
    by (simp add: put_id_validation_Nil milk_id_ok isBoolean_def values_of_def)
  have c: "cast_update (put_updates (sanitize_title_optional
        [''owner'' \<mapsto> JStr ''0000000000000000000000ad'', ''completed'' \<mapsto> JBool True])) =
      Some \<lparr>c_title = None, c_description = None, c_completed = Some True, c_owner = None\<rparr>"
    by (simp add: cast_update_def put_updates_def restrict_map_def sanitize_title_optional_def
        cast_path_def castBoolean_def)
  have h2: "tasks_router sample_verify 0
     \<lparr>route = PUT_task milk_id, bearer = Some ''token-7'', req_query = Map.empty,
      req_body = [''owner'' \<mapsto> JStr ''0000000000000000000000ad'', ''completed'' \<mapsto> JBool True]\<rparr>
     shared_store =
     (Inr (Task_body (milk\<lparr>completed := True\<rparr>)),
      shared_store\<lparr>docs := [milk\<lparr>completed := True\<rparr>, rent, eggs]\<rparr>)"
    by (simp add: tasks_router_def auth_sample router_put_id_def handleValidation_def v
        Task_findOneAndUpdate_def c id_filter_castable matches_id_filter_fun[OF milk_id_ok(3)]
        milk_id_ok shared_store_def milk_def
        rent_def eggs_def apply_set_def)
  have o: "owner (milk\<lparr>completed := True\<rparr>) = 7" by (simp add: milk_def)
  show ?thesis
    using h1 h2 o owner_comes_only_from_identity [OF h1 h2]
    by (simp add: auth_sample)
qed

section \<open>The client on an authentication failure\<close>

lemma me_check_failed_logs_out:
  "token (me_check_failed c) = None \<and> user (me_check_failed c) = None \<and>
   tasks_route (me_check_failed c) = Navigate ''/login''"
  by (simp add: me_check_failed_def logout_def tasks_route_def)

text \<open>
  C9 (as amended). When the session check (the \<^verbatim>\<open>/me\<close> call made whenever the token
  changes) is answered 401, the client clears the token and the user, the stored token
  is removed, and the \<^verbatim>\<open>/tasks\<close> route redirects to \<^verbatim>\<open>/login\<close>. When a call of the task
  view (list, create, toggle, delete, save) is answered 401, the session and the route
  stay as they are and an error message is shown in place.
\<close>

theorem unauthorized_response_handling:
  "token (me_check_done (apiFetch_result 401 b) c) = None \<and>
   user (me_check_done (apiFetch_result 401 b) c) = None \<and>
   localStorage_token (token_effect (me_check_done (apiFetch_result 401 b) c)) = None \<and>
   tasks_route (me_check_done (apiFetch_result 401 b) c) = Navigate ''/login'' \<and>
   fetchTasks_done (apiFetch_result 401 b) c =
     c\<lparr>loading := False, error := Some ''Failed to load tasks''\<rparr> \<and>
   createTask_done (apiFetch_result 401 b) c = (c\<lparr>error := Some (create_error_text b)\<rparr>, False) \<and>
   toggleComplete_done (apiFetch_result 401 b) c = (c\<lparr>error := Some ''Update failed''\<rparr>, False) \<and>
   removeTask_done (apiFetch_result 401 b) c = (c\<lparr>error := Some ''Delete failed''\<rparr>, False) \<and>
   saveEdit_done (apiFetch_result 401 b) c = (c\<lparr>error := Some ''Update failed''\<rparr>, False) \<and>
   token (fetchTasks_done (apiFetch_result 401 b) c) = token c \<and>
   user (fetchTasks_done (apiFetch_result 401 b) c) = user c \<and>
   tasks_route (fetchTasks_done (apiFetch_result 401 b) c) = tasks_route c"
  by (simp add: apiFetch_result_def me_check_done_def logout_def token_effect_def tasks_route_def
      fetchTasks_done_def createTask_done_def toggleComplete_done_def removeTask_done_def
      saveEdit_done_def)

text \<open>
  C9 (as stated) fails: a 401 answer to the list call of a logged-in client leaves the
  token and the user in place, keeps the task view and shows an error there.
\<close>

theorem fetchTasks_unauthorized_counterexample:
  "http_status (apiFetch_result 401 (None :: string res_json option)) = 401 \<and>
   \<not> ok (apiFetch_result 401 (None :: string res_json option)) \<and>
   fetchTasks_done (apiFetch_result 401 None)
     \<lparr>token = Some ''token-7'', user = Some ''A'', localStorage_token = Some ''token-7'',
      loadingUser = False, tasks = [milk], loading = True, error = None\<rparr> =
     \<lparr>token = Some ''token-7'', user = Some ''A'', localStorage_token = Some ''token-7'',
      loadingUser = False, tasks = [milk], loading = False, error = Some ''Failed to load tasks''\<rparr> \<and>
   tasks_route
     (fetchTasks_done (apiFetch_result 401 None)
        \<lparr>token = Some ''token-7'', user = Some ''A'', localStorage_token = Some ''token-7'',
         loadingUser = False, tasks = [milk], loading = True, error = None\<rparr>) = Tasks"
  by (simp add: apiFetch_result_def fetchTasks_done_def tasks_route_def)

end
